theory Spec2Isabelle
  imports Main "HOL-Library.Word"
begin

section \<open>Statement execution and pessimistic retry (executor/adapter.go)\<close>

text \<open>
  A shallow embedding of the statement-execution core of \<^verbatim>\<open>executor/adapter.go\<close>:
  \<^verbatim>\<open>ExecStmt.Exec\<close>, \<^verbatim>\<open>handleNoDelay\<close>, \<^verbatim>\<open>handleNoDelayExecutor\<close>,
  \<^verbatim>\<open>handlePessimisticDML\<close>, \<^verbatim>\<open>handlePessimisticSelectForUpdate\<close>,
  \<^verbatim>\<open>handlePessimisticLockError\<close>, the two record sets and \<^verbatim>\<open>CloseRecordSet\<close>.

  The mutable \<^verbatim>\<open>ExecStmt\<close> and the session variables it reaches through \<^verbatim>\<open>a.Ctx\<close> are
  one record that every function takes and returns. The collaborators that are not in
  this file (executor builder, operator tree, transaction manager, lock client, key
  filters, configuration) are parameters: a record of functions that may look at the
  whole current state. Every call that leaves this file is appended to a trace kept in
  the state, so that "this collaborator was never called" is a statement about the trace.
  A panic is a third kind of result next to a value and an error.
\<close>

subsection \<open>Errors and panics\<close>

text \<open>\<^verbatim>\<open>time.Duration\<close> is an int64; additions wrap.\<close>

type_synonym duration = "64 word"

type_synonym key = string

type_synonym row = nat

text \<open>
  The value a panic carries: a Go string, or a value of any other type (a runtime
  error, an error value), of which only the identity matters here.
\<close>

datatype panic_value =
    PanicString string
  | PanicOther nat

datatype err =
    ErrorsNew string
  | ErrorsErrorf panic_value
  | TikvErrDeadlock
  | ErrDeadlock
  | KvErrWriteConflict
  | KvErrKeyExists
  | OtherErr nat
  | Trace err

text \<open>\<^verbatim>\<open>errors.Cause\<close> strips the wrappers that \<^verbatim>\<open>errors.Trace\<close> adds.\<close>

fun errors_Cause :: "err \<Rightarrow> err" where
  "errors_Cause (Trace e) = errors_Cause e"
| "errors_Cause e = e"

text \<open>The type assertion \<^verbatim>\<open>errors.Cause(err).(*tikverr.ErrDeadlock)\<close>.\<close>

definition is_tikv_deadlock :: "err \<Rightarrow> bool" where
  "is_tikv_deadlock e = (errors_Cause e = TikvErrDeadlock)"

text \<open>\<^verbatim>\<open>ErrDeadlock.Equal(err)\<close> compares the cause of the error with the executor's deadlock error.\<close>

definition ErrDeadlock_Equal :: "err \<Rightarrow> bool" where
  "ErrDeadlock_Equal e = (errors_Cause e = ErrDeadlock)"

datatype 'a outcome =
    Ret 'a
  | Panic panic_value

subsection \<open>Executors\<close>

datatype ExecKind =
    DeleteExec
  | InsertExec
  | UpdateExec
  | ReplaceExec
  | LoadDataExec
  | DDLExec
  | ProjectionExec (calculateNoDelay: bool)
  | ExplainExec
  | OtherExec

datatype NextOutcome =
    NextPanic panic_value
  | NextErr err
  | NextRows "row list"

text \<open>
  An executor is an object of the operator tree, known here only through
  \<^verbatim>\<open>Open\<close>, \<^verbatim>\<open>Next\<close>, \<^verbatim>\<open>Close\<close>, \<^verbatim>\<open>Schema().Len()\<close> and its dynamic type.
  \<open>nextOut e i\<close> is what the \<open>i\<close>-th call of \<^verbatim>\<open>Next\<close> does, \<open>nextDur e i\<close> the time it
  takes, \<open>pos\<close> the number of calls made so far (the object is mutable: \<^verbatim>\<open>Next\<close> returns
  the advanced executor). \<open>txnAfterNext\<close> is the effect of a \<^verbatim>\<open>Next\<close> call on the validity
  of the session's transaction. \<open>analyzeExec\<close> is the result of
  \<^verbatim>\<open>getAnalyzeExecToExecutedNoDelay\<close> for an \<^verbatim>\<open>ExplainExec\<close>.
\<close>

datatype Executor = Executor
  (kind: ExecKind)
  (schemaLen: nat)
  (openRes: "err option")
  (openDur: duration)
  (nextOut: "nat \<Rightarrow> NextOutcome")
  (nextDur: "nat \<Rightarrow> duration")
  (txnAfterNext: "bool \<Rightarrow> bool")
  (closeRes: "err option")
  (pos: nat)
  (analyzeExec: "Executor option")

definition advance :: "Executor \<Rightarrow> Executor" where
  "advance e = Executor (kind e) (schemaLen e) (openRes e) (openDur e) (nextOut e) (nextDur e)
     (txnAfterNext e) (closeRes e) (Suc (pos e)) (analyzeExec e)"

subsection \<open>The trace of calls to collaborators\<close>

text \<open>
  One event for each call that leaves the functions modelled here, in the order of the
  calls. A timed call carries the time it took: what \<^verbatim>\<open>time.Since(start)\<close> reads after
  it. \<open>EvRetryStart\<close> is the assignment \<^verbatim>\<open>a.retryStartTime = time.Now()\<close> that follows
  \<^verbatim>\<open>a.retryCount++\<close>; \<open>EvTxn\<close> is \<^verbatim>\<open>sctx.Txn(false)\<close>; the two \<open>EvObserve\<close> events are
  the metrics of a deadlock and of the retry count.
\<close>

datatype event =
    EvBuild duration
  | EvOpen duration
  | EvNext duration
  | EvNextPanic
  | EvClose
  | EvLogAudit
  | EvOnStmtErrorForNextAction err
  | EvRetryStart
  | EvOnStmtRetry
  | EvGetStmtForUpdateTS
  | EvStmtRollback
  | EvResetForRetry
  | EvResetOffset
  | EvTxn
  | EvKeysNeedToLock
  | EvNewLockCtx nat
  | EvLockKeys "key list" duration
  | EvObserveDeadlockDetect
  | EvObserveRetryCount "64 word"
  | EvFinishExecuteStmt "64 word" "err option" bool
  | EvDetachMem
  | EvDetachDisk

subsection \<open>The statement and its session\<close>

text \<open>
  The fields of \<^verbatim>\<open>ExecStmt\<close> that the functions below write, and the session variables,
  statement context and transaction state they read. \<^verbatim>\<open>retryCount\<close> is a Go \<^verbatim>\<open>uint\<close>
  (64 bits on the supported platforms). A two-slot array \<^verbatim>\<open>[2]time.Duration\<close> is a pair:
  slot 0 first, slot 1 second. \<open>hasMemTracker\<close> and \<open>hasDiskTracker\<close> say that the
  statement context's tracker is not nil; \<open>txnValid\<close> is \<^verbatim>\<open>txn.Valid()\<close> and \<open>txnStartTS\<close>
  the start timestamp of the transaction.
\<close>

record State =
  retryCount :: "64 word"
  isSelectForUpdate :: bool
  phaseBuildDurations :: "duration \<times> duration"
  phaseOpenDurations :: "duration \<times> duration"
  phaseNextDurations :: "duration \<times> duration"
  phaseLockDurations :: "duration \<times> duration"
  SnapshotTS :: "64 word"
  LowResolutionTSO :: bool
  InRestrictedSQL :: bool
  IsPessimistic :: bool
  InDeleteStmt :: bool
  InUpdateStmt :: bool
  InInsertStmt :: bool
  hasMemTracker :: bool
  hasDiskTracker :: bool
  txnValid :: bool
  txnStartTS :: "64 word"
  FoundRows :: "64 word"
  LastFoundRows :: "64 word"
  trace :: "event list"

datatype StmtAction =
    StmtActionError
  | StmtActionRetryReady
  | StmtActionNoIdea

text \<open>
  What \<^verbatim>\<open>newExecutorBuilder(...).build(a.Plan)\<close> and, for a prepared statement,
  \<^verbatim>\<open>ExecuteExec.Build\<close> give: the builder's error, the error of the prepared statement's
  build, or the executor together with the builder's \<^verbatim>\<open>hasLock\<close> flag.
\<close>

datatype BuildOutcome =
    BuildErr err
  | ExecuteBuildErr err
  | Built Executor bool

text \<open>
  The collaborators. \<open>MaxRetryCount\<close> is
  \<^verbatim>\<open>config.GetGlobalConfig().PessimisticTxn.MaxRetryCount\<close> and \<open>PanicMemoryExceed\<close> the
  constant \<^verbatim>\<open>memory.PanicMemoryExceed\<close>. Every function gets the state at the moment of
  the call, trace included, so its answer may depend on everything that happened
  before. A function that can fail returns its error; a timed one also returns the
  time it took. \<open>TxnErr\<close> is the error of \<^verbatim>\<open>sctx.Txn(false)\<close>.
\<close>

record Env =
  MaxRetryCount :: "64 word"
  PanicMemoryExceed :: string
  builder :: "State \<Rightarrow> BuildOutcome \<times> duration"
  OnStmtErrorForNextAction :: "State \<Rightarrow> err \<Rightarrow> StmtAction \<times> err option"
  OnStmtRetry :: "State \<Rightarrow> err option"
  GetStmtForUpdateTS :: "State \<Rightarrow> err option"
  TxnErr :: "State \<Rightarrow> err option"
  KeysNeedToLock :: "State \<Rightarrow> err + key list"
  CollectUnchangedLockKeys :: "State \<Rightarrow> key list \<Rightarrow> key list"
  filterTemporaryTableKeys :: "State \<Rightarrow> key list \<Rightarrow> key list"
  filterLockTableKeys :: "State \<Rightarrow> key list \<Rightarrow> key list"
  newLockCtx :: "State \<Rightarrow> nat \<Rightarrow> err option"
  LockKeys :: "State \<Rightarrow> key list \<Rightarrow> err option \<times> duration"

definition emit :: "event \<Rightarrow> State \<Rightarrow> State" where
  "emit ev s = s\<lparr>trace := trace s @ [ev]\<rparr>"

subsection \<open>Phase timing\<close>

text \<open>\<^verbatim>\<open>d[0] += t\<close> on a two-slot array.\<close>

definition addSlot0 :: "duration \<Rightarrow> duration \<times> duration \<Rightarrow> duration \<times> duration" where
  "addSlot0 t d = (fst d + t, snd d)"

text \<open>\<^verbatim>\<open>d[1] += d[0]; d[0] = 0\<close>.\<close>

definition foldSlot :: "duration \<times> duration \<Rightarrow> duration \<times> duration" where
  "foldSlot d = (0, snd d + fst d)"

definition resetPhaseDurations :: "State \<Rightarrow> State" where
  "resetPhaseDurations s = s\<lparr>
     phaseBuildDurations := foldSlot (phaseBuildDurations s),
     phaseOpenDurations := foldSlot (phaseOpenDurations s),
     phaseNextDurations := foldSlot (phaseNextDurations s),
     phaseLockDurations := foldSlot (phaseLockDurations s)\<rparr>"

subsection \<open>Build, open, next\<close>

text \<open>
  \<^verbatim>\<open>buildExecutor\<close>: the deferred function adds the elapsed time to slot 0 on every
  return path; the builder's error is wrapped by \<^verbatim>\<open>errors.Trace\<close>, the error of
  \<^verbatim>\<open>ExecuteExec.Build\<close> is returned as it is; on success \<^verbatim>\<open>isSelectForUpdate\<close> is set
  from the builder's lock flag and the statement context. The assignments to the
  priority, the plan and the output names are not read by any function below and
  are left out.
\<close>

definition buildExecutor :: "Env \<Rightarrow> State \<Rightarrow> (err + Executor) \<times> State" where
  "buildExecutor env s =
     (let out = fst (builder env s); d = snd (builder env s);
          s1 = emit (EvBuild d) (s\<lparr>phaseBuildDurations := addSlot0 d (phaseBuildDurations s)\<rparr>)
      in case out of
           BuildErr er \<Rightarrow> (Inl (Trace er), s1)
         | ExecuteBuildErr er \<Rightarrow> (Inl er, s1)
         | Built e hasLock \<Rightarrow>
             (Inr e, s1\<lparr>isSelectForUpdate :=
                hasLock \<and> (\<not> InDeleteStmt s \<and> \<not> InUpdateStmt s \<and> \<not> InInsertStmt s)\<rparr>))"

definition openExecutor :: "Executor \<Rightarrow> State \<Rightarrow> err option \<times> State" where
  "openExecutor e s =
     (openRes e,
      emit (EvOpen (openDur e)) (s\<lparr>phaseOpenDurations := addSlot0 (openDur e) (phaseOpenDurations s)\<rparr>))"

text \<open>
  \<^verbatim>\<open>a.next\<close>: when \<^verbatim>\<open>Next\<close> panics the line that adds the elapsed time is not reached.
\<close>

definition next_a :: "Executor \<Rightarrow> State \<Rightarrow> NextOutcome \<times> Executor \<times> State" where
  "next_a e s =
     (let s1 = s\<lparr>txnValid := txnAfterNext e (txnValid s)\<rparr> in
      case nextOut e (pos e) of
        NextPanic p \<Rightarrow> (NextPanic p, advance e, emit EvNextPanic s1)
      | r \<Rightarrow> (r, advance e,
               emit (EvNext (nextDur e (pos e)))
                 (s1\<lparr>phaseNextDurations := addSlot0 (nextDur e (pos e)) (phaseNextDurations s1)\<rparr>)))"

subsection \<open>The shared recovery step\<close>

text \<open>
  The deferred function of \<^verbatim>\<open>handlePessimisticLockError\<close>: a returned error whose cause
  is the lock client's deadlock is replaced by \<^verbatim>\<open>ErrDeadlock\<close>.
\<close>

definition deadlockDefer :: "err option \<Rightarrow> err option" where
  "deadlockDefer r =
     (case r of
        None \<Rightarrow> None
      | Some er \<Rightarrow> if is_tikv_deadlock er then Some ErrDeadlock else Some er)"

definition retryLimitErr :: err where
  "retryLimitErr = ErrorsNew ''pessimistic lock retry limit reached''"

text \<open>
  Lines 819 to 835 of \<^verbatim>\<open>handlePessimisticLockError\<close>: rebuild, roll the statement back,
  reopen.
\<close>

definition lockErrorRebuild :: "Env \<Rightarrow> State \<Rightarrow> (Executor option \<times> err option) \<times> State" where
  "lockErrorRebuild env s =
     (case buildExecutor env s of
        (Inl er, s1) \<Rightarrow> ((None, Some er), s1)
      | (Inr e, s1) \<Rightarrow>
          (case openExecutor e (emit EvResetOffset (emit EvResetForRetry (emit EvStmtRollback s1))) of
             (Some er, s2) \<Rightarrow> ((None, Some er), s2)
           | (None, s2) \<Rightarrow> ((Some e, None), s2)))"

text \<open>
  Lines 801 to 817: count the retry, record its start time, tell the transaction
  manager, fetch the for-update timestamp, fold the phase durations.
\<close>

definition lockErrorRetry :: "Env \<Rightarrow> State \<Rightarrow> (Executor option \<times> err option) \<times> State" where
  "lockErrorRetry env s =
     (let s1 = emit EvRetryStart (s\<lparr>retryCount := retryCount s + 1\<rparr>);
          s2 = emit EvOnStmtRetry s1;
          s3 = emit EvGetStmtForUpdateTS s2
      in case OnStmtRetry env s1 of
           Some er \<Rightarrow> ((None, Some er), s2)
         | None \<Rightarrow>
             (case GetStmtForUpdateTS env s2 of
                Some er \<Rightarrow> ((None, Some er), s3)
              | None \<Rightarrow> lockErrorRebuild env (resetPhaseDurations s3)))"

text \<open>
  The body of \<^verbatim>\<open>handlePessimisticLockError\<close> after the nil check and before the deferred
  function runs (lines 788 to 800, then the two parts above).
\<close>

definition lockErrorBody :: "Env \<Rightarrow> err \<Rightarrow> State \<Rightarrow> (Executor option \<times> err option) \<times> State" where
  "lockErrorBody env lockErr s =
     (let s1 = emit (EvOnStmtErrorForNextAction lockErr) s in
      case OnStmtErrorForNextAction env s lockErr of
        (action, Some er) \<Rightarrow> ((None, Some er), s1)
      | (action, None) \<Rightarrow>
          (if action \<noteq> StmtActionRetryReady then ((None, Some lockErr), s1)
           else if MaxRetryCount env \<le> retryCount s1 then ((None, Some retryLimitErr), s1)
           else lockErrorRetry env s1))"

definition handlePessimisticLockError ::
  "Env \<Rightarrow> err option \<Rightarrow> State \<Rightarrow> (Executor option \<times> err option) \<times> State" where
  "handlePessimisticLockError env lockErr s =
     (case lockErr of
        None \<Rightarrow> ((None, None), s)
      | Some le \<Rightarrow>
          (let r = lockErrorBody env le s
           in ((fst (fst r), deadlockDefer (snd (fst r))), snd r)))"

subsection \<open>The no-delay drive\<close>

text \<open>\<^verbatim>\<open>logAudit\<close> returns at once for internal SQL, otherwise it runs the audit plugins.\<close>

definition logAudit :: "State \<Rightarrow> State" where
  "logAudit s = (if InRestrictedSQL s then s else emit EvLogAudit s)"

text \<open>The type switch of \<^verbatim>\<open>handleNoDelayExecutor\<close> on the write executors.\<close>

fun isWriteExec :: "ExecKind \<Rightarrow> bool" where
  "isWriteExec DeleteExec = True"
| "isWriteExec InsertExec = True"
| "isWriteExec UpdateExec = True"
| "isWriteExec ReplaceExec = True"
| "isWriteExec LoadDataExec = True"
| "isWriteExec DDLExec = True"
| "isWriteExec _ = False"

definition snapshotWriteErr :: err where
  "snapshotWriteErr = ErrorsNew ''can not execute write statement when 'tidb_snapshot' is set''"

definition lowResolutionWriteErr :: err where
  "lowResolutionWriteErr =
     ErrorsNew ''can not execute write statement when 'tidb_low_resolution_tso' is set''"

datatype recordSet = recordSet
  (executor: Executor)
  (rs_txnStartTS: "64 word")
  (lastErr: "err option")

datatype chunkRowRecordSet = chunkRowRecordSet
  (rows: "row list")
  (idx: nat)
  (c_e: Executor)

text \<open>The interface \<^verbatim>\<open>sqlexec.RecordSet\<close> has these two implementations in this file.\<close>

datatype RecordSet =
    OfExecutor recordSet
  | OfRows chunkRowRecordSet

text \<open>
  \<^verbatim>\<open>handleNoDelayExecutor\<close>: the deferred function closes the executor and logs the
  audit event on every exit, a panic included. The record set it returns is always nil.
\<close>

definition handleNoDelayExecutor ::
  "Executor \<Rightarrow> State \<Rightarrow> (RecordSet option \<times> err option) outcome \<times> State" where
  "handleNoDelayExecutor e s =
     (let deferred = (\<lambda>s'. logAudit (emit EvClose s')) in
      if isWriteExec (kind e) \<and> SnapshotTS s \<noteq> 0 then
        (Ret (None, Some snapshotWriteErr), deferred s)
      else if isWriteExec (kind e) \<and> LowResolutionTSO s then
        (Ret (None, Some lowResolutionWriteErr), deferred s)
      else
        (case next_a e s of
           (NextPanic p, e1, s1) \<Rightarrow> (Panic p, deferred s1)
         | (NextErr er, e1, s1) \<Rightarrow> (Ret (None, Some er), deferred s1)
         | (NextRows chk, e1, s1) \<Rightarrow> (Ret (None, None), deferred s1)))"

subsection \<open>The pessimistic DML loop\<close>

text \<open>
  What one pass through the body of the \<^verbatim>\<open>for\<close> loop of \<^verbatim>\<open>handlePessimisticDML\<close> ends
  with: a return, a propagating panic, or the next pass with a fresh executor.
\<close>

datatype DMLStep =
    DMLReturn "err option"
  | DMLPanic panic_value
  | DMLAgain Executor

text \<open>
  Lines 723 to 730 and 758 to 765: the recovery step and what the loop does with its
  result. \<^verbatim>\<open>handlePessimisticLockError\<close> never gives a nil executor together with a nil
  error for a non-nil lock error; the loop would go on with a nil executor, which the
  next \<^verbatim>\<open>Next\<close> call dereferences (a runtime error, not a string).
\<close>

definition nilExecutorPanic :: panic_value where
  "nilExecutorPanic = PanicOther 0"

definition dmlRecover :: "Env \<Rightarrow> err \<Rightarrow> State \<Rightarrow> DMLStep \<times> State" where
  "dmlRecover env lockErr s =
     (case handlePessimisticLockError env (Some lockErr) s of
        ((eo, Some er), s1) \<Rightarrow>
          (DMLReturn (Some er), if ErrDeadlock_Equal er then emit EvObserveDeadlockDetect s1 else s1)
      | ((Some e1, None), s1) \<Rightarrow> (DMLAgain e1, s1)
      | ((None, None), s1) \<Rightarrow> (DMLPanic nilExecutorPanic, s1))"

text \<open>Lines 732 to 757: compute the keys, filter them, lock them.\<close>

definition dmlLock :: "Env \<Rightarrow> State \<Rightarrow> DMLStep \<times> State" where
  "dmlLock env s =
     (let s1 = emit EvKeysNeedToLock s in
      case KeysNeedToLock env s of
        Inl err1 \<Rightarrow> (DMLReturn (Some err1), s1)
      | Inr keys0 \<Rightarrow>
          (let keys1 = CollectUnchangedLockKeys env s1 keys0 in
           if length keys1 = 0 then (DMLReturn None, s1)
           else
             let keys2 = filterTemporaryTableKeys env s1 keys1;
                 keys3 = filterLockTableKeys env s1 keys2;
                 s2 = emit (EvNewLockCtx (length keys3)) s1
             in case newLockCtx env s1 (length keys3) of
                  Some er \<Rightarrow> (DMLReturn (Some er), s2)
                | None \<Rightarrow>
                    (let r = LockKeys env s2 keys3;
                         s3 = emit (EvLockKeys keys3 (snd r))
                                (s2\<lparr>phaseLockDurations := addSlot0 (snd r) (phaseLockDurations s2)\<rparr>)
                     in case fst r of
                          None \<Rightarrow> (DMLReturn None, s3)
                        | Some er \<Rightarrow> dmlRecover env er s3)))"

text \<open>
  One pass through the loop body, lines 716 to 766. The loop itself follows; it ends
  because every further pass has counted a retry below \<open>MaxRetryCount\<close>, which is
  proved with the lemmas on the retry counter.
\<close>

definition dmlIter :: "Env \<Rightarrow> Executor \<Rightarrow> State \<Rightarrow> DMLStep \<times> State" where
  "dmlIter env e s =
     (case handleNoDelayExecutor e s of
        (Panic p, s1) \<Rightarrow> (DMLPanic p, s1)
      | (Ret (rs, er), s1) \<Rightarrow>
          (if \<not> txnValid s1 then (DMLReturn er, s1)
           else case er of
                  Some lockErr \<Rightarrow> dmlRecover env lockErr s1
                | None \<Rightarrow> dmlLock env s1))"

function dmlLoop :: "Env \<Rightarrow> Executor \<Rightarrow> State \<Rightarrow> (err option) outcome \<times> State" where
  "dmlLoop env e s =
     (let r = dmlIter env e s in
      case fst r of
        DMLReturn er \<Rightarrow> (Ret er, snd r)
      | DMLPanic p \<Rightarrow> (Panic p, snd r)
      | DMLAgain e1 \<Rightarrow> dmlLoop env e1 (snd r))"
  by pat_completeness auto

text \<open>\<^verbatim>\<open>handlePessimisticDML\<close>: fetch the transaction without activating it, then loop.\<close>

definition handlePessimisticDML :: "Env \<Rightarrow> Executor \<Rightarrow> State \<Rightarrow> (err option) outcome \<times> State" where
  "handlePessimisticDML env e s =
     (case TxnErr env s of
        Some er \<Rightarrow> (Ret (Some er), emit EvTxn s)
      | None \<Rightarrow> dmlLoop env e (emit EvTxn s))"

subsection \<open>The select-for-update loop\<close>

text \<open>
  The inner loop of \<^verbatim>\<open>runPessimisticSelectForUpdate\<close> pulls chunks until an error or an
  empty chunk. Nothing bounds the number of non-empty chunks an executor gives, so
  the loop is a partial function: \<open>None\<close> is a loop that never ends.
\<close>

partial_function (option) sfuDrain ::
  "Executor \<Rightarrow> row list \<Rightarrow> State \<Rightarrow> ((err + row list) outcome \<times> Executor \<times> State) option" where
  "sfuDrain e acc s =
     (case next_a e s of
        (NextPanic p, e1, s1) \<Rightarrow> Some (Panic p, e1, s1)
      | (NextErr er, e1, s1) \<Rightarrow> Some (Ret (Inl er), e1, s1)
      | (NextRows chk, e1, s1) \<Rightarrow>
          if length chk = 0 then Some (Ret (Inr acc), e1, s1)
          else sfuDrain e1 (acc @ chk) s1)"

text \<open>
  \<^verbatim>\<open>runPessimisticSelectForUpdate\<close>: the deferred function closes the executor on every
  exit. The result fields of the record set are not modelled.
\<close>

definition runPessimisticSelectForUpdate ::
  "Executor \<Rightarrow> State \<Rightarrow> ((RecordSet option \<times> err option) outcome \<times> State) option" where
  "runPessimisticSelectForUpdate e s =
     (case sfuDrain e [] s of
        None \<Rightarrow> None
      | Some (Panic p, e1, s1) \<Rightarrow> Some (Panic p, emit EvClose s1)
      | Some (Ret (Inl er), e1, s1) \<Rightarrow> Some (Ret (None, Some er), emit EvClose s1)
      | Some (Ret (Inr rs), e1, s1) \<Rightarrow>
          Some (Ret (Some (OfRows (chunkRowRecordSet rs 0 e1)), None), emit EvClose s1))"

partial_function (option) sfuLoop ::
  "Env \<Rightarrow> Executor \<Rightarrow> State \<Rightarrow> ((RecordSet option \<times> err option) outcome \<times> State) option" where
  "sfuLoop env e s =
     (case runPessimisticSelectForUpdate e s of
        None \<Rightarrow> None
      | Some (Panic p, s1) \<Rightarrow> Some (Panic p, s1)
      | Some (Ret (rs, er), s1) \<Rightarrow>
          (case handlePessimisticLockError env er s1 of
             ((eo, Some er1), s2) \<Rightarrow> Some (Ret (None, Some er1), s2)
           | ((None, None), s2) \<Rightarrow> Some (Ret (rs, None), s2)
           | ((Some e1, None), s2) \<Rightarrow> sfuLoop env e1 s2))"

definition handlePessimisticSelectForUpdate ::
  "Env \<Rightarrow> Executor \<Rightarrow> State \<Rightarrow> ((RecordSet option \<times> err option) outcome \<times> State) option" where
  "handlePessimisticSelectForUpdate env e s =
     (if SnapshotTS s \<noteq> 0 then Some (Ret (None, Some snapshotWriteErr), emit EvClose s)
      else sfuLoop env e s)"

subsection \<open>Classification and Exec\<close>

text \<open>Detaching the memory tracker and the disk tracker, where the statement has them.\<close>

definition detachTrackers :: "State \<Rightarrow> State" where
  "detachTrackers s =
     (let s1 = (if hasMemTracker s then emit EvDetachMem s else s)
      in if hasDiskTracker s1 then emit EvDetachDisk s1 else s1)"

text \<open>The three results of \<^verbatim>\<open>handleNoDelay\<close>, with the first one set by the caller's branch.\<close>

definition withHandled ::
  "bool \<Rightarrow> (RecordSet option \<times> err option) outcome \<times> State \<Rightarrow>
   (bool \<times> RecordSet option \<times> err option) outcome \<times> State" where
  "withHandled h r =
     (case fst r of
        Ret (rs, er) \<Rightarrow> (Ret (h, rs, er), snd r)
      | Panic p \<Rightarrow> (Panic p, snd r))"

definition withNilRecordSet ::
  "(err option) outcome \<times> State \<Rightarrow> (RecordSet option \<times> err option) outcome \<times> State" where
  "withNilRecordSet r =
     (case fst r of
        Ret er \<Rightarrow> (Ret (None, er), snd r)
      | Panic p \<Rightarrow> (Panic p, snd r))"

text \<open>
  The deferred function of \<^verbatim>\<open>handleNoDelay\<close>: it detaches the trackers unless the
  function hands back a record set; it also runs when the body panics.
\<close>

definition noDelayDeferred ::
  "(bool \<times> RecordSet option \<times> err option) outcome \<times> State \<Rightarrow>
   (bool \<times> RecordSet option \<times> err option) outcome \<times> State" where
  "noDelayDeferred r =
     (case fst r of
        Ret (h, Some rs, er) \<Rightarrow> r
      | _ \<Rightarrow> (fst r, detachTrackers (snd r)))"

definition handleNoDelay ::
  "Env \<Rightarrow> Executor \<Rightarrow> bool \<Rightarrow> State \<Rightarrow> (bool \<times> RecordSet option \<times> err option) outcome \<times> State" where
  "handleNoDelay env e isPessimistic s =
     (let analyze = (if kind e = ExplainExec then analyzeExec e else None);
          toCheck = (case analyze of Some a \<Rightarrow> a | None \<Rightarrow> e);
          isExplainAnalyze = (analyze \<noteq> None)
      in noDelayDeferred
           (if schemaLen toCheck = 0 then
              (if isPessimistic then
                 withHandled (\<not> isExplainAnalyze)
                   (withNilRecordSet (handlePessimisticDML env toCheck s))
               else withHandled (\<not> isExplainAnalyze) (handleNoDelayExecutor toCheck s))
            else if kind toCheck = ProjectionExec True then
              withHandled True (handleNoDelayExecutor e s)
            else (Ret (False, None, None), s)))"

text \<open>\<^verbatim>\<open>strings.Contains\<close>.\<close>

fun strings_Contains :: "string \<Rightarrow> string \<Rightarrow> bool" where
  "strings_Contains [] sub = (sub = [])"
| "strings_Contains (c # cs) sub = (take (length sub) (c # cs) = sub \<or> strings_Contains cs sub)"

text \<open>
  The body of \<^verbatim>\<open>Exec\<close> from \<^verbatim>\<open>buildExecutor\<close> on. What comes before it and the update
  of the process info only touch session settings that no function here reads.
\<close>

definition execBody ::
  "Env \<Rightarrow> State \<Rightarrow> ((RecordSet option \<times> err option) outcome \<times> State) option" where
  "execBody env s =
     (case buildExecutor env s of
        (Inl er, s1) \<Rightarrow> Some (Ret (None, Some er), s1)
      | (Inr e, s1) \<Rightarrow>
          (case openExecutor e s1 of
             (Some er, s2) \<Rightarrow> Some (Ret (None, Some er), emit EvClose s2)
           | (None, s2) \<Rightarrow>
               if IsPessimistic s2 \<and> isSelectForUpdate s2 then
                 handlePessimisticSelectForUpdate env e s2
               else
                 (case handleNoDelay env e (IsPessimistic s2) s2 of
                    (Panic p, s3) \<Rightarrow> Some (Panic p, s3)
                  | (Ret (handled, rs, er), s3) \<Rightarrow>
                      if handled \<or> er \<noteq> None then Some (Ret (rs, er), s3)
                      else
                        (case TxnErr env s3 of
                           Some er1 \<Rightarrow> Some (Ret (None, Some er1), emit EvTxn s3)
                         | None \<Rightarrow>
                             Some (Ret (Some (OfExecutor
                                      (recordSet e (if txnValid s3 then txnStartTS s3 else 0) None)),
                                    None),
                                   emit EvTxn s3)))))"

text \<open>
  The test \<^verbatim>\<open>str, ok := r.(string); ok && strings.Contains(str, memory.PanicMemoryExceed)\<close>
  on a recovered panic value.
\<close>

fun isMemoryExceed :: "string \<Rightarrow> panic_value \<Rightarrow> bool" where
  "isMemoryExceed lim (PanicString str) = strings_Contains str lim"
| "isMemoryExceed lim (PanicOther v) = False"

text \<open>
  The deferred function of \<^verbatim>\<open>Exec\<close>. Without a panic it only observes the retry count.
  With one, it panics again when the value is not a string or does not contain
  \<^verbatim>\<open>memory.PanicMemoryExceed\<close>; otherwise the value becomes the returned error.
\<close>

definition execRecover ::
  "Env \<Rightarrow> (RecordSet option \<times> err option) outcome \<times> State \<Rightarrow>
   (RecordSet option \<times> err option) outcome \<times> State" where
  "execRecover env r =
     (case fst r of
        Ret v \<Rightarrow>
          (Ret v, if 0 < retryCount (snd r) then emit (EvObserveRetryCount (retryCount (snd r))) (snd r)
                  else snd r)
      | Panic p \<Rightarrow>
          if \<not> isMemoryExceed (PanicMemoryExceed env) p then (Panic p, snd r)
          else (Ret (None, Some (ErrorsErrorf p)), snd r))"

definition Exec ::
  "Env \<Rightarrow> State \<Rightarrow> ((RecordSet option \<times> err option) outcome \<times> State) option" where
  "Exec env s = map_option (execRecover env) (execBody env s)"


subsection \<open>Record sets\<close>

text \<open>
  \<^verbatim>\<open>recordSet.Next\<close>: the deferred function turns every panic into an error; the line
  that stores \<^verbatim>\<open>lastErr\<close> is then not reached. The result is the rows left in the
  caller's chunk, the error, and the record set after the call.
\<close>

definition recordSet_Next :: "recordSet \<Rightarrow> State \<Rightarrow> (row list \<times> err option) \<times> recordSet \<times> State" where
  "recordSet_Next a s =
     (case next_a (executor a) s of
        (NextPanic p, e1, s1) \<Rightarrow>
          (([], Some (ErrorsErrorf p)), recordSet e1 (rs_txnStartTS a) (lastErr a), s1)
      | (NextErr er, e1, s1) \<Rightarrow>
          (([], Some er), recordSet e1 (rs_txnStartTS a) (Some er), s1)
      | (NextRows chk, e1, s1) \<Rightarrow>
          ((chk, None), recordSet e1 (rs_txnStartTS a) (lastErr a),
           if length chk = 0 then s1\<lparr>LastFoundRows := FoundRows s1\<rparr>
           else s1\<lparr>FoundRows := FoundRows s1 + of_nat (length chk)\<rparr>))"

text \<open>
  \<^verbatim>\<open>FinishExecuteStmt\<close> records the slow log, the statement summary and the metrics. It
  is one event of the trace, with the arguments it was called with.
\<close>

definition FinishExecuteStmt :: "64 word \<Rightarrow> err option \<Rightarrow> bool \<Rightarrow> State \<Rightarrow> State" where
  "FinishExecuteStmt txnTS er hasMoreResults s = emit (EvFinishExecuteStmt txnTS er hasMoreResults) s"

definition CloseRecordSet :: "64 word \<Rightarrow> err option \<Rightarrow> State \<Rightarrow> State" where
  "CloseRecordSet ts er s =
     (let s1 = logAudit (FinishExecuteStmt ts er False s);
          s2 = (if hasDiskTracker s1 then emit EvDetachDisk s1 else s1)
      in if hasMemTracker s2 then emit EvDetachMem s2 else s2)"

definition recordSet_Close :: "recordSet \<Rightarrow> State \<Rightarrow> err option \<times> State" where
  "recordSet_Close a s =
     (closeRes (executor a), CloseRecordSet (rs_txnStartTS a) (lastErr a) (emit EvClose s))"

definition chunkRowRecordSet_Close :: "chunkRowRecordSet \<Rightarrow> State \<Rightarrow> err option \<times> State" where
  "chunkRowRecordSet_Close c s = (None, CloseRecordSet (txnStartTS s) None s)"

definition RecordSet_Close :: "RecordSet \<Rightarrow> State \<Rightarrow> err option \<times> State" where
  "RecordSet_Close r s =
     (case r of
        OfExecutor a \<Rightarrow> recordSet_Close a s
      | OfRows c \<Rightarrow> chunkRowRecordSet_Close c s)"







subsection \<open>Reading the trace\<close>

text \<open>The time a traced call adds to each of the four phases.\<close>

fun buildTime :: "event \<Rightarrow> duration" where
  "buildTime (EvBuild d) = d"
| "buildTime _ = 0"

fun openTime :: "event \<Rightarrow> duration" where
  "openTime (EvOpen d) = d"
| "openTime _ = 0"

fun nextTime :: "event \<Rightarrow> duration" where
  "nextTime (EvNext d) = d"
| "nextTime _ = 0"

fun lockTime :: "event \<Rightarrow> duration" where
  "lockTime (EvLockKeys ks d) = d"
| "lockTime _ = 0"

definition phaseTime :: "(event \<Rightarrow> duration) \<Rightarrow> event list \<Rightarrow> duration" where
  "phaseTime f tr = sum_list (map f tr)"

text \<open>
  The attempts of a statement: the trace cut at every \<open>EvRetryStart\<close>, the moment
  \<^verbatim>\<open>handlePessimisticLockError\<close> counts a retry and stores its start time.
\<close>

fun splitAttempts :: "event list \<Rightarrow> event list \<Rightarrow> event list list" where
  "splitAttempts cur [] = [cur]"
| "splitAttempts cur (ev # tr) =
     (if ev = EvRetryStart then cur # splitAttempts [] tr else splitAttempts (cur @ [ev]) tr)"

definition attempts :: "event list \<Rightarrow> event list list" where
  "attempts tr = splitAttempts [] tr"

text \<open>The two slots of a phase as the trace gives them: the last attempt, and all earlier ones.\<close>

definition slots :: "(event \<Rightarrow> duration) \<Rightarrow> event list \<Rightarrow> duration \<times> duration" where
  "slots f tr = (phaseTime f (last (attempts tr)), sum_list (map (phaseTime f) (butlast (attempts tr))))"

fun isLockError :: "event \<Rightarrow> bool" where
  "isLockError (EvOnStmtErrorForNextAction er) = True"
| "isLockError _ = False"

text \<open>The statement's counters agree with its trace.\<close>

definition accounted :: "State \<Rightarrow> bool" where
  "accounted s \<longleftrightarrow>
     unat (retryCount s) = length (butlast (attempts (trace s))) \<and>
     length (filter isLockError (trace s)) = length (butlast (attempts (trace s))) \<and>
     phaseBuildDurations s = slots buildTime (trace s) \<and>
     phaseOpenDurations s = slots openTime (trace s) \<and>
     phaseNextDurations s = slots nextTime (trace s) \<and>
     phaseLockDurations s = slots lockTime (trace s)"

text \<open>A statement that has not started: nothing counted, nothing timed, nothing called.\<close>

definition fresh :: "State \<Rightarrow> bool" where
  "fresh s \<longleftrightarrow>
     retryCount s = 0 \<and> trace s = [] \<and>
     phaseBuildDurations s = (0, 0) \<and> phaseOpenDurations s = (0, 0) \<and>
     phaseNextDurations s = (0, 0) \<and> phaseLockDurations s = (0, 0)"

text \<open>Calls that drive an executor, and calls that reach the lock client.\<close>

fun isDrive :: "event \<Rightarrow> bool" where
  "isDrive (EvNext d) = True"
| "isDrive EvNextPanic = True"
| "isDrive _ = False"

fun isLockClient :: "event \<Rightarrow> bool" where
  "isLockClient (EvLockKeys ks d) = True"
| "isLockClient EvKeysNeedToLock = True"
| "isLockClient _ = False"

fun isLockKeys :: "event \<Rightarrow> bool" where
  "isLockKeys (EvLockKeys ks d) = True"
| "isLockKeys _ = False"

fun isFinish :: "event \<Rightarrow> bool" where
  "isFinish (EvFinishExecuteStmt ts er h) = True"
| "isFinish _ = False"

text \<open>The events a function appended: what is left of the trace after the caller's prefix.\<close>

definition appended :: "State \<Rightarrow> State \<Rightarrow> event list" where
  "appended s s' = drop (length (trace s)) (trace s')"

text \<open>
  Nothing appended between two states drives an executor or reaches the lock client.
\<close>

definition quiet :: "State \<Rightarrow> State \<Rightarrow> bool" where
  "quiet s s' \<longleftrightarrow>
     (\<exists>evs. trace s' = trace s @ evs \<and> (\<forall>ev \<in> set evs. \<not> isDrive ev \<and> \<not> isLockClient ev))"



subsection \<open>Concrete scenarios\<close>

text \<open>
  An executor of the given kind and schema width that opens without error in 5ns, whose
  \<^verbatim>\<open>Next\<close> calls take 7ns each and do not touch the transaction.
\<close>

definition scriptedExec :: "ExecKind \<Rightarrow> nat \<Rightarrow> (nat \<Rightarrow> NextOutcome) \<Rightarrow> Executor" where
  "scriptedExec k n out = Executor k n None 5 out (\<lambda>i. 7) (\<lambda>v. v) None 0 None"

text \<open>A pessimistic session with an active transaction and a statement that has not started.\<close>

definition session0 :: State where
  "session0 = \<lparr>retryCount = 0, isSelectForUpdate = False,
     phaseBuildDurations = (0, 0), phaseOpenDurations = (0, 0),
     phaseNextDurations = (0, 0), phaseLockDurations = (0, 0),
     SnapshotTS = 0, LowResolutionTSO = False, InRestrictedSQL = False, IsPessimistic = True,
     InDeleteStmt = False, InUpdateStmt = False, InInsertStmt = False,
     hasMemTracker = True, hasDiskTracker = True, txnValid = True, txnStartTS = 100,
     FoundRows = 0, LastFoundRows = 0, trace = []\<rparr>"

text \<open>
  Collaborators that never fail: the transaction manager calls write conflicts and
  duplicate keys retry-ready and nothing else, the builder gives the executor \<open>mk s\<close>
  in 3ns, one key needs a lock, no filter removes it, and the lock client answers
  \<open>lk s keys\<close>.
\<close>

definition scriptedEnv ::
  "64 word \<Rightarrow> (State \<Rightarrow> Executor \<times> bool) \<Rightarrow> (State \<Rightarrow> key list \<Rightarrow> err option \<times> duration) \<Rightarrow> Env" where
  "scriptedEnv m mk lk = \<lparr>MaxRetryCount = m, PanicMemoryExceed = ''Out Of Memory Quota!'',
     builder = (\<lambda>s. (Built (fst (mk s)) (snd (mk s)), 3)),
     OnStmtErrorForNextAction = (\<lambda>s er.
        if errors_Cause er = KvErrWriteConflict \<or> errors_Cause er = KvErrKeyExists
        then (StmtActionRetryReady, None) else (StmtActionNoIdea, None)),
     OnStmtRetry = (\<lambda>s. None), GetStmtForUpdateTS = (\<lambda>s. None), TxnErr = (\<lambda>s. None),
     KeysNeedToLock = (\<lambda>s. Inr [''k1'']),
     CollectUnchangedLockKeys = (\<lambda>s ks. ks),
     filterTemporaryTableKeys = (\<lambda>s ks. ks),
     filterLockTableKeys = (\<lambda>s ks. ks),
     newLockCtx = (\<lambda>s n. None),
     LockKeys = lk\<rparr>"

text \<open>An update that matches no row, and a lock client that grants every lock in 11ns.\<close>

definition updateExec :: Executor where
  "updateExec = scriptedExec UpdateExec 0 (\<lambda>i. NextRows [])"

definition grantLocks :: "State \<Rightarrow> key list \<Rightarrow> err option \<times> duration" where
  "grantLocks s ks = (None, 11)"

definition calmEnv :: "64 word \<Rightarrow> Env" where
  "calmEnv m = scriptedEnv m (\<lambda>s. (updateExec, False)) grantLocks"

text \<open>
  An update whose \<^verbatim>\<open>Next\<close> fails with a write conflict and leaves the session without a
  valid transaction.
\<close>

definition conflictAndInvalidate :: Executor where
  "conflictAndInvalidate =
     Executor UpdateExec 0 None 5 (\<lambda>i. NextErr KvErrWriteConflict) (\<lambda>i. 7) (\<lambda>v. False) None 0 None"

text \<open>Collaborators as in \<open>calmEnv\<close>, but the one key to lock belongs to a temporary table.\<close>

definition tempTableEnv :: Env where
  "tempTableEnv = (calmEnv 5)\<lparr>filterTemporaryTableKeys := (\<lambda>s ks. filter (\<lambda>k. k \<noteq> ''k1'') ks)\<rparr>"

text \<open>Collaborators as in \<open>calmEnv\<close>, but the one key is unchanged and already locked.\<close>

definition unchangedEnv :: Env where
  "unchangedEnv = (calmEnv 5)\<lparr>CollectUnchangedLockKeys := (\<lambda>s ks. filter (\<lambda>k. k \<noteq> ''k1'') ks)\<rparr>"

text \<open>The same session outside a pessimistic transaction.\<close>

definition optimistic0 :: State where
  "optimistic0 = session0\<lparr>IsPessimistic := False\<rparr>"

text \<open>An insert whose \<^verbatim>\<open>Next\<close> panics with the given value, and collaborators that build it.\<close>

definition panicExec :: "panic_value \<Rightarrow> Executor" where
  "panicExec p = scriptedExec InsertExec 0 (\<lambda>i. NextPanic p)"

definition panicEnv :: "panic_value \<Rightarrow> Env" where
  "panicEnv p = scriptedEnv 5 (\<lambda>s. (panicExec p, False)) grantLocks"

definition outOfMemory :: panic_value where
  "outOfMemory = PanicString ''Out Of Memory Quota![conn_id=7]''"

definition unexpectedState :: panic_value where
  "unexpectedState = PanicString ''unexpected executor state''"



text \<open>A record set over an executor that gives the rows 1 and 2 and is then exhausted.\<close>

definition twoRowsExec :: Executor where
  "twoRowsExec = scriptedExec OtherExec 1 (\<lambda>i. if i = 0 then NextRows [1, 2] else NextRows [])"

definition streamOfTwo :: RecordSet where
  "streamOfTwo = OfExecutor (recordSet twoRowsExec 100 None)"




text \<open>
  Collaborators as in \<open>calmEnv\<close>, with a lock client that answers the first two
  requests of the statement with a write conflict and grants the third.
\<close>

definition conflictTwice :: "State \<Rightarrow> key list \<Rightarrow> err option \<times> duration" where
  "conflictTwice s ks = (if retryCount s < 2 then Some KvErrWriteConflict else None, 11)"

definition conflictTwiceEnv :: Env where
  "conflictTwiceEnv = scriptedEnv 5 (\<lambda>s. (updateExec, False)) conflictTwice"




section \<open>The retry counter and the termination of the loops\<close>

lemma word_succ_below:
  fixes a :: "64 word"
  assumes "a < b"
  shows "unat (a + 1) = Suc (unat a)"
proof -
  have "unat a < unat b" using assms by (simp add: word_less_nat_alt)
  moreover have "unat b < 2 ^ 64" using unsigned_less[of b] by simp
  ultimately have "unat a + 1 < 2 ^ 64" by simp
  then show ?thesis by (simp add: unat_word_ariths)
qed

lemma retryCount_emit [simp]: "retryCount (emit ev s) = retryCount s"
  by (simp add: emit_def)

lemma retryCount_logAudit [simp]: "retryCount (logAudit s) = retryCount s"
  by (simp add: logAudit_def)

lemma retryCount_reset [simp]: "retryCount (resetPhaseDurations s) = retryCount s"
  by (simp add: resetPhaseDurations_def)

lemma retryCount_build [simp]: "retryCount (snd (buildExecutor env s)) = retryCount s"
  by (simp add: buildExecutor_def Let_def split: BuildOutcome.splits)

lemma retryCount_open [simp]: "retryCount (snd (openExecutor e s)) = retryCount s"
  by (simp add: openExecutor_def)

lemma retryCount_next [simp]: "retryCount (snd (snd (next_a e s))) = retryCount s"
  by (simp add: next_a_def Let_def split: NextOutcome.splits)

lemma retryCount_noDelay [simp]: "retryCount (snd (handleNoDelayExecutor e s)) = retryCount s"
proof -
  obtain r e1 s1 where n: "next_a e s = (r, e1, s1)" by (cases "next_a e s")
  then have "retryCount s1 = retryCount s" using retryCount_next[of e s] by simp
  then show ?thesis using n
    by (simp add: handleNoDelayExecutor_def Let_def split: NextOutcome.splits)
qed

lemma retryCount_rebuild [simp]: "retryCount (snd (lockErrorRebuild env s)) = retryCount s"
proof -
  obtain r s1 where b: "buildExecutor env s = (r, s1)" by (cases "buildExecutor env s")
  have s1: "retryCount s1 = retryCount s" using retryCount_build[of env s] b by simp
  show ?thesis
  proof (cases r)
    case (Inl er) then show ?thesis using b s1 by (simp add: lockErrorRebuild_def)
  next
    case (Inr e)
    obtain o2 s2 where op: "openExecutor e (emit EvResetOffset (emit EvResetForRetry (emit EvStmtRollback s1))) = (o2, s2)"
      by (cases "openExecutor e (emit EvResetOffset (emit EvResetForRetry (emit EvStmtRollback s1)))")
    have "retryCount s2 = retryCount s1"
      using retryCount_open[of e "emit EvResetOffset (emit EvResetForRetry (emit EvStmtRollback s1))"] op by simp
    then show ?thesis using b s1 Inr op by (simp add: lockErrorRebuild_def split: option.splits)
  qed
qed

lemma retryCount_retry [simp]: "retryCount (snd (lockErrorRetry env s)) = retryCount s + 1"
  by (simp add: lockErrorRetry_def Let_def split: option.splits)

text \<open>The recovery step hands out an executor only below the budget, and has then counted one retry.\<close>

lemma lockErrorBody_executor:
  assumes "lockErrorBody env le s = ((Some e1, er), s1)"
  shows "retryCount s < MaxRetryCount env \<and> retryCount s1 = retryCount s + 1"
proof -
  obtain act mer where o: "OnStmtErrorForNextAction env s le = (act, mer)"
    by (cases "OnStmtErrorForNextAction env s le")
  from assms o have r: "lockErrorRetry env (emit (EvOnStmtErrorForNextAction le) s) = ((Some e1, er), s1)"
    and lt: "\<not> MaxRetryCount env \<le> retryCount s"
    by (auto simp: lockErrorBody_def Let_def split: option.splits if_splits)
  from r have "retryCount s1 = retryCount s + 1"
    using retryCount_retry[of env "emit (EvOnStmtErrorForNextAction le) s"] by simp
  with lt show ?thesis by (simp add: not_le)
qed

lemma handlePessimisticLockError_executor:
  assumes "handlePessimisticLockError env lockErr s = ((Some e1, er), s1)"
  shows "retryCount s < MaxRetryCount env \<and> retryCount s1 = retryCount s + 1"
proof (cases lockErr)
  case None
  with assms show ?thesis by (simp add: handlePessimisticLockError_def)
next
  case (Some le)
  obtain eo er0 s0 where b: "lockErrorBody env le s = ((eo, er0), s0)"
    by (metis prod.collapse)
  with assms Some have "eo = Some e1" "s0 = s1"
    by (simp_all add: handlePessimisticLockError_def Let_def)
  with b lockErrorBody_executor show ?thesis by blast
qed

lemma dmlRecover_again:
  assumes "dmlRecover env le s = (DMLAgain e1, s1)"
  shows "retryCount s < MaxRetryCount env \<and> retryCount s1 = retryCount s + 1"
proof -
  obtain eo er s0 where h: "handlePessimisticLockError env (Some le) s = ((eo, er), s0)"
    by (metis prod.collapse)
  with assms have "eo = Some e1" "s0 = s1"
    by (auto simp: dmlRecover_def split: option.splits if_splits)
  with h handlePessimisticLockError_executor show ?thesis by blast
qed

lemma dmlLock_again:
  assumes "dmlLock env s = (DMLAgain e1, s1)"
  shows "retryCount s < MaxRetryCount env \<and> retryCount s1 = retryCount s + 1"
proof -
  from assms obtain le s0 where "dmlRecover env le s0 = (DMLAgain e1, s1)" "retryCount s0 = retryCount s"
    by (auto simp: dmlLock_def Let_def split: sum.splits if_splits option.splits)
  with dmlRecover_again show ?thesis by metis
qed

lemma dmlIter_again:
  assumes "dmlIter env e s = (DMLAgain e1, s1)"
  shows "retryCount s < MaxRetryCount env \<and> retryCount s1 = retryCount s + 1"
proof -
  obtain r s0 where h: "handleNoDelayExecutor e s = (r, s0)" by (cases "handleNoDelayExecutor e s")
  then have rc: "retryCount s0 = retryCount s" using retryCount_noDelay[of e s] by simp
  from assms h have "(\<exists>le. dmlRecover env le s0 = (DMLAgain e1, s1)) \<or> dmlLock env s0 = (DMLAgain e1, s1)"
    by (auto simp: dmlIter_def split: outcome.splits if_splits option.splits)
  with rc dmlRecover_again dmlLock_again show ?thesis by metis
qed

termination dmlLoop
proof (relation "measure (\<lambda>(env, e, s). unat (MaxRetryCount env) - unat (retryCount s))")
  show "wf (measure (\<lambda>(env, e, s). unat (MaxRetryCount env) - unat (retryCount s)))" by simp
next
  fix env e s x x3
  assume "x = dmlIter env e s" "fst x = DMLAgain x3"
  then have "dmlIter env e s = (DMLAgain x3, snd x)" by (metis prod.collapse)
  from dmlIter_again[OF this]
  have a: "retryCount s < MaxRetryCount env" and b: "retryCount (snd x) = retryCount s + 1" by auto
  from a have "unat (retryCount s) < unat (MaxRetryCount env)" by (simp add: word_less_nat_alt)
  moreover from a have "unat (retryCount s + 1) = Suc (unat (retryCount s))" by (rule word_succ_below)
  ultimately show "((env, x3, snd x), (env, e, s)) \<in> measure (\<lambda>(env, e, s). unat (MaxRetryCount env) - unat (retryCount s))"
    using b by simp
qed

declare dmlLoop.simps [simp del]

text \<open>The three ways a pass through the loop of \<^verbatim>\<open>handlePessimisticDML\<close> goes on.\<close>

lemma dmlLoop_return:
  "dmlIter env e s = (DMLReturn er, s1) \<Longrightarrow> dmlLoop env e s = (Ret er, s1)"
  by (subst dmlLoop.simps) (simp add: Let_def)

lemma dmlLoop_panic:
  "dmlIter env e s = (DMLPanic p, s1) \<Longrightarrow> dmlLoop env e s = (Panic p, s1)"
  by (subst dmlLoop.simps) (simp add: Let_def)

lemma dmlLoop_again:
  "dmlIter env e s = (DMLAgain e1, s1) \<Longrightarrow> dmlLoop env e s = dmlLoop env e1 s1"
  by (subst dmlLoop.simps) (simp add: Let_def)




section \<open>The retry budget\<close>

lemma deadlockDefer_retryLimit: "deadlockDefer (Some retryLimitErr) = Some retryLimitErr"
  by (simp add: deadlockDefer_def is_tikv_deadlock_def retryLimitErr_def)

lemma lockErrorBody_exhausted:
  assumes "OnStmtErrorForNextAction env s lockErr = (StmtActionRetryReady, None)"
    and "MaxRetryCount env \<le> retryCount s"
  shows "lockErrorBody env lockErr s =
           ((None, Some retryLimitErr), emit (EvOnStmtErrorForNextAction lockErr) s)"
  using assms by (simp add: lockErrorBody_def Let_def)

lemma lockErrorBody_below:
  assumes "OnStmtErrorForNextAction env s lockErr = (StmtActionRetryReady, None)"
    and "retryCount s < MaxRetryCount env"
  shows "lockErrorBody env lockErr s = lockErrorRetry env (emit (EvOnStmtErrorForNextAction lockErr) s)"
  using assms by (simp add: lockErrorBody_def Let_def not_le[symmetric])

lemma handlePessimisticLockError_Some:
  "handlePessimisticLockError env (Some le) s =
     ((fst (fst (lockErrorBody env le s)), deadlockDefer (snd (fst (lockErrorBody env le s)))),
      snd (lockErrorBody env le s))"
  by (simp add: handlePessimisticLockError_def Let_def)

text \<open>
  C1. When the transaction manager calls a lock error retry-ready and the retry counter
  has reached the configured maximum, \<^verbatim>\<open>handlePessimisticLockError\<close> returns no executor and
  the error "pessimistic lock retry limit reached", and leaves the counter as it is: at
  the maximum, when it was not above it. Below the maximum the counter goes up by one,
  without wrapping around and without passing the maximum.
\<close>

theorem retry_budget_exhausted:
  assumes "OnStmtErrorForNextAction env s lockErr = (StmtActionRetryReady, None)"
  shows "(MaxRetryCount env \<le> retryCount s \<longrightarrow>
            handlePessimisticLockError env (Some lockErr) s =
              ((None, Some retryLimitErr), emit (EvOnStmtErrorForNextAction lockErr) s) \<and>
            retryCount (snd (handlePessimisticLockError env (Some lockErr) s)) = retryCount s \<and>
            (retryCount s \<le> MaxRetryCount env \<longrightarrow>
               retryCount (snd (handlePessimisticLockError env (Some lockErr) s)) = MaxRetryCount env)) \<and>
         (retryCount s < MaxRetryCount env \<longrightarrow>
            retryCount (snd (handlePessimisticLockError env (Some lockErr) s)) = retryCount s + 1 \<and>
            unat (retryCount (snd (handlePessimisticLockError env (Some lockErr) s))) =
              Suc (unat (retryCount s)) \<and>
            retryCount (snd (handlePessimisticLockError env (Some lockErr) s)) \<le> MaxRetryCount env)"
proof (intro conjI impI)
  assume full: "MaxRetryCount env \<le> retryCount s"
  show res: "handlePessimisticLockError env (Some lockErr) s =
      ((None, Some retryLimitErr), emit (EvOnStmtErrorForNextAction lockErr) s)"
    using lockErrorBody_exhausted[OF assms full]
    by (simp add: handlePessimisticLockError_Some deadlockDefer_retryLimit)
  show same: "retryCount (snd (handlePessimisticLockError env (Some lockErr) s)) = retryCount s"
    by (simp add: res)
  assume "retryCount s \<le> MaxRetryCount env"
  with full same
  show "retryCount (snd (handlePessimisticLockError env (Some lockErr) s)) = MaxRetryCount env"
    by simp
next
  assume below: "retryCount s < MaxRetryCount env"
  show up: "retryCount (snd (handlePessimisticLockError env (Some lockErr) s)) = retryCount s + 1"
    using lockErrorBody_below[OF assms below]
    by (simp add: handlePessimisticLockError_Some)
  show "unat (retryCount (snd (handlePessimisticLockError env (Some lockErr) s))) =
      Suc (unat (retryCount s))"
    using up word_succ_below[OF below] by simp
  show "retryCount (snd (handlePessimisticLockError env (Some lockErr) s)) \<le> MaxRetryCount env"
    using up inc_le[OF below] by simp
qed

text \<open>
  A write conflict with the counter at a maximum of 2 gives the limit error and keeps
  the counter at 2; the same conflict with the counter at 0 counts the first retry.
\<close>

theorem retry_budget_exhausted_witness:
  "OnStmtErrorForNextAction (calmEnv 2) (session0\<lparr>retryCount := 2\<rparr>) KvErrWriteConflict =
     (StmtActionRetryReady, None) \<and>
   MaxRetryCount (calmEnv 2) \<le> retryCount (session0\<lparr>retryCount := 2\<rparr>) \<and>
   fst (handlePessimisticLockError (calmEnv 2) (Some KvErrWriteConflict) (session0\<lparr>retryCount := 2\<rparr>)) =
     (None, Some retryLimitErr) \<and>
   retryCount (snd (handlePessimisticLockError (calmEnv 2) (Some KvErrWriteConflict)
     (session0\<lparr>retryCount := 2\<rparr>))) = 2 \<and>
   OnStmtErrorForNextAction (calmEnv 2) session0 KvErrWriteConflict = (StmtActionRetryReady, None) \<and>
   retryCount session0 < MaxRetryCount (calmEnv 2) \<and>
   retryCount (snd (handlePessimisticLockError (calmEnv 2) (Some KvErrWriteConflict) session0)) = 1"
proof -
  have v2: "OnStmtErrorForNextAction (calmEnv 2) (session0\<lparr>retryCount := 2\<rparr>) KvErrWriteConflict =
     (StmtActionRetryReady, None)"
    by (simp add: calmEnv_def scriptedEnv_def)
  have v0: "OnStmtErrorForNextAction (calmEnv 2) session0 KvErrWriteConflict = (StmtActionRetryReady, None)"
    by (simp add: calmEnv_def scriptedEnv_def)
  have full: "MaxRetryCount (calmEnv 2) \<le> retryCount (session0\<lparr>retryCount := 2\<rparr>)"
    by (simp add: calmEnv_def scriptedEnv_def)
  have below: "retryCount session0 < MaxRetryCount (calmEnv 2)"
    by (simp add: calmEnv_def scriptedEnv_def session0_def)
  show ?thesis
    using retry_budget_exhausted[OF v2] retry_budget_exhausted[OF v0] v2 v0 full below
    by (simp add: session0_def)
qed

section \<open>Deadlocks\<close>

lemma lockErrorBody_not_ready:
  assumes "OnStmtErrorForNextAction env s lockErr = (action, mer)"
    and "mer = None \<longrightarrow> action \<noteq> StmtActionRetryReady"
  shows "lockErrorBody env lockErr s =
           ((None, Some (case mer of None \<Rightarrow> lockErr | Some er \<Rightarrow> er)),
            emit (EvOnStmtErrorForNextAction lockErr) s)"
  using assms by (cases mer) (simp_all add: lockErrorBody_def Let_def)

text \<open>
  C3. Let the cause of the lock error be the lock client's deadlock value, and let the
  transaction manager not call it retry-ready: it names another action, or it returns an
  error of its own whose cause is again the deadlock value (the lock error itself, for
  one). Then \<^verbatim>\<open>handlePessimisticLockError\<close> returns no executor, whatever the retry counter
  and the maximum are, the counter stays as it was, and the error it returns is
  \<^verbatim>\<open>ErrDeadlock\<close>, which is not the lock error it was given.
\<close>

theorem deadlock_is_fatal:
  assumes "is_tikv_deadlock lockErr"
    and "OnStmtErrorForNextAction env s lockErr = (action, mer)"
    and "mer = None \<longrightarrow> action \<noteq> StmtActionRetryReady"
    and "\<forall>er. mer = Some er \<longrightarrow> is_tikv_deadlock er"
  shows "handlePessimisticLockError env (Some lockErr) s =
           ((None, Some ErrDeadlock), emit (EvOnStmtErrorForNextAction lockErr) s) \<and>
         retryCount (snd (handlePessimisticLockError env (Some lockErr) s)) = retryCount s \<and>
         ErrDeadlock \<noteq> lockErr"
proof -
  have dl: "is_tikv_deadlock (case mer of None \<Rightarrow> lockErr | Some er \<Rightarrow> er)"
    using assms(1,4) by (cases mer) simp_all
  have res: "handlePessimisticLockError env (Some lockErr) s =
      ((None, Some ErrDeadlock), emit (EvOnStmtErrorForNextAction lockErr) s)"
    using lockErrorBody_not_ready[OF assms(2,3)] dl
    by (simp add: handlePessimisticLockError_Some deadlockDefer_def)
  have "ErrDeadlock \<noteq> lockErr"
    using assms(1) by (auto simp: is_tikv_deadlock_def)
  with res show ?thesis by simp
qed

text \<open>
  A traced deadlock with the whole budget of 5 retries left, and a transaction manager
  that answers "no idea".
\<close>

theorem deadlock_is_fatal_witness:
  "is_tikv_deadlock (Trace TikvErrDeadlock) \<and>
   OnStmtErrorForNextAction (calmEnv 5) session0 (Trace TikvErrDeadlock) = (StmtActionNoIdea, None) \<and>
   retryCount session0 < MaxRetryCount (calmEnv 5) \<and>
   fst (handlePessimisticLockError (calmEnv 5) (Some (Trace TikvErrDeadlock)) session0) =
     (None, Some ErrDeadlock) \<and>
   retryCount (snd (handlePessimisticLockError (calmEnv 5) (Some (Trace TikvErrDeadlock)) session0)) = 0"
proof -
  have dl: "is_tikv_deadlock (Trace TikvErrDeadlock)"
    by (simp add: is_tikv_deadlock_def)
  have v: "OnStmtErrorForNextAction (calmEnv 5) session0 (Trace TikvErrDeadlock) = (StmtActionNoIdea, None)"
    by (simp add: calmEnv_def scriptedEnv_def)
  have b: "retryCount session0 < MaxRetryCount (calmEnv 5)"
    by (simp add: calmEnv_def scriptedEnv_def session0_def)
  have rc: "retryCount session0 = 0" by (simp add: session0_def)
  show ?thesis
    using deadlock_is_fatal[OF dl v] dl v b rc by simp
qed

section \<open>Read-only views\<close>

lemma appended_emit [simp]: "appended s (emit ev s) = [ev]"
  by (simp add: appended_def emit_def)

lemma appended_emit_emit [simp]: "appended s (emit ev2 (emit ev1 s)) = [ev1, ev2]"
  by (simp add: appended_def emit_def)

lemma appended_self [simp]: "appended s s = []"
  by (simp add: appended_def)

subsection \<open>Stretches of the trace without a drive or a lock-client call\<close>

lemma quiet_refl [simp]: "quiet s s"
  by (simp add: quiet_def)








subsection \<open>What the refusal leaves unchanged\<close>





subsection \<open>The refusal, and where it goes\<close>


















section \<open>One pass of the pessimistic DML loop\<close>

text \<open>
  For a lock error the recovery step gives an executor or an error, never neither: the
  loop does not go on with a nil executor.
\<close>

lemma lockErrorBody_never_nil_nil: "fst (lockErrorBody env le s) \<noteq> (None, None)"
proof -
  have rb: "fst (lockErrorRebuild env t) \<noteq> (None, None)" for t
    by (auto simp: lockErrorRebuild_def split: prod.splits sum.splits option.splits)
  have rt: "fst (lockErrorRetry env t) \<noteq> (None, None)" for t
    using rb by (auto simp: lockErrorRetry_def Let_def split: option.splits)
  show ?thesis
    using rt by (auto simp: lockErrorBody_def Let_def split: prod.splits option.splits)
qed

lemma dmlRecover_never_panics: "fst (dmlRecover env le s) \<noteq> DMLPanic p"
proof -
  obtain eo er s1 where b: "lockErrorBody env le s = ((eo, er), s1)" by (metis prod.collapse)
  have "(eo, er) \<noteq> (None, None)" using lockErrorBody_never_nil_nil[of env le s] b by simp
  then have "eo \<noteq> None \<or> deadlockDefer er \<noteq> None"
    by (cases er) (auto simp: deadlockDefer_def)
  then show ?thesis
    using b by (auto simp: dmlRecover_def handlePessimisticLockError_Some split: option.splits)
qed

text \<open>What \<^verbatim>\<open>handleNoDelayExecutor\<close> appends to the trace.\<close>

lemma trace_logAudit:
  "trace (logAudit s) = trace s @ (if InRestrictedSQL s then [] else [EvLogAudit])"
  by (simp add: logAudit_def emit_def)

lemma handleNoDelayExecutor_trace:
  "\<exists>evs. trace (snd (handleNoDelayExecutor e s)) = trace s @ evs \<and>
         (\<forall>ev \<in> set evs. ev = EvClose \<or> ev = EvLogAudit \<or> ev = EvNextPanic \<or> ev = EvNext (nextDur e (pos e)))"
  by (auto simp: handleNoDelayExecutor_def next_a_def Let_def trace_logAudit emit_def
        split: NextOutcome.splits)

lemma handleNoDelayExecutor_driven_once:
  assumes "fst (handleNoDelayExecutor e s) = Ret (rs, None)"
  shows "trace (snd (handleNoDelayExecutor e s)) =
           trace s @ EvNext (nextDur e (pos e)) # EvClose # (if InRestrictedSQL s then [] else [EvLogAudit])"
  using assms
  by (auto simp: handleNoDelayExecutor_def next_a_def Let_def trace_logAudit emit_def
        split: NextOutcome.splits if_splits)

lemma appended_append: "trace s' = trace s @ evs \<Longrightarrow> appended s s' = evs"
  by (simp add: appended_def)

text \<open>
  C10. If the transaction is not valid once \<^verbatim>\<open>handleNoDelayExecutor\<close> has returned, the
  loop of \<^verbatim>\<open>handlePessimisticDML\<close> returns what the drive returned, an error included, in
  the state the drive left: the retry counter is unchanged, the transaction manager was
  not asked about a lock error, no retry started, and the lock client was not called.
\<close>

theorem invalid_txn_returns_drive_result:
  assumes "handleNoDelayExecutor e s = (Ret (rs, er), s1)"
    and "\<not> txnValid s1"
  shows "dmlLoop env e s = (Ret er, s1) \<and>
         retryCount s1 = retryCount s \<and>
         \<not> (\<exists>ev \<in> set (appended s s1). isLockError ev \<or> ev = EvRetryStart \<or> isLockClient ev)"
proof -
  have "dmlIter env e s = (DMLReturn er, s1)"
    using assms by (simp add: dmlIter_def)
  then have loop: "dmlLoop env e s = (Ret er, s1)" by (rule dmlLoop_return)
  have rc: "retryCount s1 = retryCount s"
    using retryCount_noDelay[of e s] assms(1) by simp
  obtain evs where tr: "trace s1 = trace s @ evs"
    and evs: "\<forall>ev \<in> set evs. ev = EvClose \<or> ev = EvLogAudit \<or> ev = EvNextPanic \<or> ev = EvNext (nextDur e (pos e))"
    using handleNoDelayExecutor_trace[of e s] assms(1) by auto
  have "appended s s1 = evs" using tr by (rule appended_append)
  with evs have "\<not> (\<exists>ev \<in> set (appended s s1). isLockError ev \<or> ev = EvRetryStart \<or> isLockClient ev)"
    by auto
  with loop rc show ?thesis by simp
qed

text \<open>A write conflict from a drive that also ends the transaction comes back as it is.\<close>

theorem invalid_txn_returns_drive_result_witness:
  "fst (handleNoDelayExecutor conflictAndInvalidate session0) = Ret (None, Some KvErrWriteConflict) \<and>
   \<not> txnValid (snd (handleNoDelayExecutor conflictAndInvalidate session0)) \<and>
   fst (dmlLoop (calmEnv 5) conflictAndInvalidate session0) = Ret (Some KvErrWriteConflict) \<and>
   retryCount (snd (dmlLoop (calmEnv 5) conflictAndInvalidate session0)) = 0"
proof -
  have h1: "fst (handleNoDelayExecutor conflictAndInvalidate session0) =
      Ret (None, Some KvErrWriteConflict)"
    by (simp add: handleNoDelayExecutor_def next_a_def conflictAndInvalidate_def session0_def Let_def)
  then have h: "handleNoDelayExecutor conflictAndInvalidate session0 =
     (Ret (None, Some KvErrWriteConflict), snd (handleNoDelayExecutor conflictAndInvalidate session0))"
    by (metis prod.collapse)
  have v: "\<not> txnValid (snd (handleNoDelayExecutor conflictAndInvalidate session0))"
    by (simp add: handleNoDelayExecutor_def next_a_def conflictAndInvalidate_def session0_def Let_def
          logAudit_def emit_def)
  have rc: "retryCount session0 = 0" by (simp add: session0_def)
  show ?thesis
    using invalid_txn_returns_drive_result[OF h v, of "calmEnv 5"] h1 v rc by simp
qed

section \<open>Nothing to lock\<close>

lemma dmlLock_nothing:
  assumes "KeysNeedToLock env s = Inr keys"
    and "CollectUnchangedLockKeys env (emit EvKeysNeedToLock s) keys = []"
  shows "dmlLock env s = (DMLReturn None, emit EvKeysNeedToLock s)"
  using assms by (simp add: dmlLock_def Let_def)

text \<open>
  C6, as the code has it. Let the drive return without error. If the transaction is
  then valid, let the keys that \<^verbatim>\<open>KeysNeedToLock\<close> gives be empty after
  \<^verbatim>\<open>CollectUnchangedLockKeys\<close>, which is where the loop tests for an empty key list,
  before the filters for temporary tables and locked tables. Then the loop returns
  nil after this one pass: the executor was driven once, the retry counter is
  unchanged, no retry started and \<^verbatim>\<open>LockKeys\<close> was not called.
\<close>

theorem no_keys_one_attempt:
  assumes "handleNoDelayExecutor e s = (Ret (rs, None), s1)"
    and "txnValid s1 \<longrightarrow>
           KeysNeedToLock env s1 = Inr keys \<and>
           CollectUnchangedLockKeys env (emit EvKeysNeedToLock s1) keys = []"
  shows "fst (dmlLoop env e s) = Ret None \<and>
         retryCount (snd (dmlLoop env e s)) = retryCount s \<and>
         filter isDrive (trace (snd (dmlLoop env e s))) =
           filter isDrive (trace s) @ [EvNext (nextDur e (pos e))] \<and>
         filter isLockKeys (trace (snd (dmlLoop env e s))) = filter isLockKeys (trace s) \<and>
         \<not> (\<exists>ev \<in> set (appended s (snd (dmlLoop env e s))). ev = EvRetryStart \<or> isLockKeys ev)"
proof -
  have rc1: "retryCount s1 = retryCount s"
    using retryCount_noDelay[of e s] assms(1) by simp
  have tr1: "trace s1 = trace s @ EvNext (nextDur e (pos e)) # EvClose #
      (if InRestrictedSQL s then [] else [EvLogAudit])"
    using handleNoDelayExecutor_driven_once[of e s rs] assms(1) by simp
  show ?thesis
  proof (cases "txnValid s1")
    case False
    then have "dmlIter env e s = (DMLReturn None, s1)"
      using assms(1) by (simp add: dmlIter_def)
    then have "dmlLoop env e s = (Ret None, s1)" by (rule dmlLoop_return)
    then show ?thesis using rc1 tr1 by (simp add: appended_def)
  next
    case True
    then have "dmlLock env s1 = (DMLReturn None, emit EvKeysNeedToLock s1)"
      using assms(2) dmlLock_nothing by blast
    then have "dmlIter env e s = (DMLReturn None, emit EvKeysNeedToLock s1)"
      using assms(1) True by (simp add: dmlIter_def)
    then have "dmlLoop env e s = (Ret None, emit EvKeysNeedToLock s1)" by (rule dmlLoop_return)
    then show ?thesis using rc1 tr1 by (simp add: appended_def emit_def)
  qed
qed

text \<open>An update that matches no row while the one key of the transaction is unchanged and locked.\<close>

theorem no_keys_one_attempt_witness:
  "fst (handleNoDelayExecutor updateExec session0) = Ret (None, None) \<and>
   txnValid (snd (handleNoDelayExecutor updateExec session0)) \<and>
   KeysNeedToLock unchangedEnv (snd (handleNoDelayExecutor updateExec session0)) = Inr [''k1''] \<and>
   CollectUnchangedLockKeys unchangedEnv
     (emit EvKeysNeedToLock (snd (handleNoDelayExecutor updateExec session0))) [''k1''] = [] \<and>
   fst (dmlLoop unchangedEnv updateExec session0) = Ret None \<and>
   retryCount (snd (dmlLoop unchangedEnv updateExec session0)) = 0 \<and>
   filter isDrive (trace (snd (dmlLoop unchangedEnv updateExec session0))) = [EvNext 7] \<and>
   filter isLockKeys (trace (snd (dmlLoop unchangedEnv updateExec session0))) = []"
proof -
  have h1: "fst (handleNoDelayExecutor updateExec session0) = Ret (None, None)"
    by (simp add: handleNoDelayExecutor_def next_a_def updateExec_def scriptedExec_def session0_def Let_def)
  then have h: "handleNoDelayExecutor updateExec session0 =
      (Ret (None, None), snd (handleNoDelayExecutor updateExec session0))"
    by (metis prod.collapse)
  have v: "txnValid (snd (handleNoDelayExecutor updateExec session0))"
    by (simp add: handleNoDelayExecutor_def next_a_def updateExec_def scriptedExec_def session0_def Let_def
          logAudit_def emit_def)
  have k: "KeysNeedToLock unchangedEnv (snd (handleNoDelayExecutor updateExec session0)) = Inr [''k1'']"
    by (simp add: unchangedEnv_def calmEnv_def scriptedEnv_def)
  have c: "CollectUnchangedLockKeys unchangedEnv
      (emit EvKeysNeedToLock (snd (handleNoDelayExecutor updateExec session0))) [''k1''] = []"
    by (simp add: unchangedEnv_def calmEnv_def scriptedEnv_def)
  have s0: "retryCount session0 = 0" "trace session0 = []"
    by (simp_all add: session0_def)
  have d: "nextDur updateExec (pos updateExec) = 7"
    by (simp add: updateExec_def scriptedExec_def)
  show ?thesis
    using no_keys_one_attempt[OF h, of unchangedEnv "[''k1'']"] h1 v k c s0 d by simp
qed

text \<open>
  The claim as it was written fails when the keys are all filtered out after the test:
  the one key belongs to a temporary table, the drive returns without error, the
  filtered key list is empty, and \<^verbatim>\<open>LockKeys\<close> is called with no key.
\<close>

theorem empty_filtered_keys_still_locked:
  "fst (handleNoDelayExecutor updateExec session0) = Ret (None, None) \<and>
   KeysNeedToLock tempTableEnv session0 = Inr [''k1''] \<and>
   filterLockTableKeys tempTableEnv session0
     (filterTemporaryTableKeys tempTableEnv session0
        (CollectUnchangedLockKeys tempTableEnv session0 [''k1''])) = [] \<and>
   fst (dmlLoop tempTableEnv updateExec session0) = Ret None \<and>
   trace (snd (dmlLoop tempTableEnv updateExec session0)) =
     [EvNext 7, EvClose, EvLogAudit, EvKeysNeedToLock, EvNewLockCtx 0, EvLockKeys [] 11]"
proof -
  have it: "fst (dmlIter tempTableEnv updateExec session0) = DMLReturn None \<and>
      trace (snd (dmlIter tempTableEnv updateExec session0)) =
        [EvNext 7, EvClose, EvLogAudit, EvKeysNeedToLock, EvNewLockCtx 0, EvLockKeys [] 11]"
    by (simp add: dmlIter_def dmlLock_def handleNoDelayExecutor_def next_a_def logAudit_def emit_def
          tempTableEnv_def calmEnv_def scriptedEnv_def grantLocks_def updateExec_def scriptedExec_def
          session0_def Let_def)
  then have "dmlIter tempTableEnv updateExec session0 =
      (DMLReturn None, snd (dmlIter tempTableEnv updateExec session0))"
    by (metis prod.collapse)
  then have "dmlLoop tempTableEnv updateExec session0 =
      (Ret None, snd (dmlIter tempTableEnv updateExec session0))"
    by (rule dmlLoop_return)
  moreover have "fst (handleNoDelayExecutor updateExec session0) = Ret (None, None)"
    by (simp add: handleNoDelayExecutor_def next_a_def updateExec_def scriptedExec_def session0_def Let_def)
  moreover have "filterLockTableKeys tempTableEnv session0
     (filterTemporaryTableKeys tempTableEnv session0
        (CollectUnchangedLockKeys tempTableEnv session0 [''k1''])) = []"
    by (simp add: tempTableEnv_def calmEnv_def scriptedEnv_def)
  moreover have "KeysNeedToLock tempTableEnv session0 = Inr [''k1'']"
    by (simp add: tempTableEnv_def calmEnv_def scriptedEnv_def)
  ultimately show ?thesis using it by simp
qed

section \<open>Closing a record set\<close>

lemma filter_isFinish_logAudit [simp]:
  "filter isFinish (trace (logAudit s)) = filter isFinish (trace s)"
  by (simp add: trace_logAudit)

lemma CloseRecordSet_finish:
  "filter isFinish (trace (CloseRecordSet ts er s)) =
     filter isFinish (trace s) @ [EvFinishExecuteStmt ts er False]"
  by (simp add: CloseRecordSet_def FinishExecuteStmt_def Let_def emit_def logAudit_def)

lemma CloseRecordSet_audit:
  "filter (\<lambda>ev. ev = EvLogAudit) (trace (CloseRecordSet ts er s)) =
     filter (\<lambda>ev. ev = EvLogAudit) (trace s) @ (if InRestrictedSQL s then [] else [EvLogAudit])"
  by (simp add: CloseRecordSet_def FinishExecuteStmt_def Let_def emit_def logAudit_def)

lemma CloseRecordSet_restricted [simp]:
  "InRestrictedSQL (CloseRecordSet ts er s) = InRestrictedSQL s"
  by (simp add: CloseRecordSet_def FinishExecuteStmt_def Let_def emit_def logAudit_def)

lemma RecordSet_Close_finish:
  "length (filter isFinish (trace (snd (RecordSet_Close r s)))) = Suc (length (filter isFinish (trace s)))"
  by (cases r)
     (simp_all add: RecordSet_Close_def recordSet_Close_def chunkRowRecordSet_Close_def
        CloseRecordSet_finish emit_def)

lemma RecordSet_Close_audit:
  "length (filter (\<lambda>ev. ev = EvLogAudit) (trace (snd (RecordSet_Close r s)))) =
     length (filter (\<lambda>ev. ev = EvLogAudit) (trace s)) + (if InRestrictedSQL s then 0 else 1)"
  by (cases r)
     (simp_all add: RecordSet_Close_def recordSet_Close_def chunkRowRecordSet_Close_def
        CloseRecordSet_audit emit_def)

lemma RecordSet_Close_restricted [simp]:
  "InRestrictedSQL (snd (RecordSet_Close r s)) = InRestrictedSQL s"
  by (cases r)
     (simp_all add: RecordSet_Close_def recordSet_Close_def chunkRowRecordSet_Close_def emit_def)

text \<open>
  C8, as the code has it. Every call of \<^verbatim>\<open>Close\<close> on a record set runs
  \<^verbatim>\<open>FinishExecuteStmt\<close> once and, outside internal SQL, the audit hook once: neither record
  set remembers that it was closed. Two calls of \<^verbatim>\<open>Close\<close> run \<^verbatim>\<open>FinishExecuteStmt\<close>
  twice and the audit hook twice.
\<close>

theorem close_twice_finishes_twice:
  "length (filter isFinish (trace (snd (RecordSet_Close r (snd (RecordSet_Close r s)))))) =
     length (filter isFinish (trace s)) + 2 \<and>
   length (filter (\<lambda>ev. ev = EvLogAudit) (trace (snd (RecordSet_Close r (snd (RecordSet_Close r s)))))) =
     length (filter (\<lambda>ev. ev = EvLogAudit) (trace s)) + (if InRestrictedSQL s then 0 else 2)"
  by (simp add: RecordSet_Close_finish RecordSet_Close_audit)

theorem close_twice_finishes_twice_witness:
  "length (filter isFinish
     (trace (snd (RecordSet_Close streamOfTwo (snd (RecordSet_Close streamOfTwo session0)))))) = 2 \<and>
   length (filter (\<lambda>ev. ev = EvLogAudit)
     (trace (snd (RecordSet_Close streamOfTwo (snd (RecordSet_Close streamOfTwo session0)))))) = 2"
proof -
  have "trace session0 = []" "\<not> InRestrictedSQL session0" by (simp_all add: session0_def)
  then show ?thesis
    using close_twice_finishes_twice[of streamOfTwo session0] by simp
qed

text \<open>
  The claim as it was written fails: closing the same record set twice leaves two
  \<^verbatim>\<open>FinishExecuteStmt\<close> calls and two audit events in the trace.
\<close>

theorem second_close_finishes_again:
  "trace (snd (RecordSet_Close streamOfTwo session0)) =
     [EvClose, EvFinishExecuteStmt 100 None False, EvLogAudit, EvDetachDisk, EvDetachMem] \<and>
   trace (snd (RecordSet_Close streamOfTwo (snd (RecordSet_Close streamOfTwo session0)))) =
     [EvClose, EvFinishExecuteStmt 100 None False, EvLogAudit, EvDetachDisk, EvDetachMem,
      EvClose, EvFinishExecuteStmt 100 None False, EvLogAudit, EvDetachDisk, EvDetachMem]"
  by (simp add: RecordSet_Close_def recordSet_Close_def CloseRecordSet_def FinishExecuteStmt_def
        logAudit_def emit_def streamOfTwo_def session0_def Let_def)

section \<open>Panics\<close>

lemma execRecover_panic:
  "execRecover env (Panic p, s1) =
     (if isMemoryExceed (PanicMemoryExceed env) p then Ret (None, Some (ErrorsErrorf p)) else Panic p, s1)"
  by (simp add: execRecover_def)

lemma recordSet_Next_panic:
  "nextOut (executor a) (pos (executor a)) = NextPanic p \<Longrightarrow>
   fst (recordSet_Next a s) = ([], Some (ErrorsErrorf p))"
  by (simp add: recordSet_Next_def next_a_def Let_def)

text \<open>
  C7, as the code has it. When the body of \<^verbatim>\<open>Exec\<close> panics, the deferred function
  turns the panic into the returned error only if its value is a string that contains
  \<^verbatim>\<open>memory.PanicMemoryExceed\<close>; with any other value \<^verbatim>\<open>Exec\<close> panics again with the same
  value. \<^verbatim>\<open>recordSet.Next\<close> turns every panic of the executor into the returned error.
\<close>

theorem exec_recovers_memory_panic_only:
  "(execBody env s = Some (Panic p, s1) \<longrightarrow>
      Exec env s =
        Some (if isMemoryExceed (PanicMemoryExceed env) p then Ret (None, Some (ErrorsErrorf p))
              else Panic p, s1)) \<and>
   (nextOut (executor a) (pos (executor a)) = NextPanic p \<longrightarrow>
      fst (recordSet_Next a s) = ([], Some (ErrorsErrorf p)))"
  by (simp add: Exec_def execRecover_panic recordSet_Next_panic)

lemma execBody_panicEnv:
  "map_option fst (execBody (panicEnv p) optimistic0) = Some (Panic p)"
  by (simp add: execBody_def buildExecutor_def openExecutor_def handleNoDelay_def noDelayDeferred_def withHandled_def
        handleNoDelayExecutor_def next_a_def panicEnv_def panicExec_def scriptedEnv_def
        scriptedExec_def optimistic0_def session0_def Let_def emit_def)

text \<open>
  An insert whose drive runs out of memory: \<^verbatim>\<open>Exec\<close> returns the panic value as an
  error. The same panic under \<^verbatim>\<open>recordSet.Next\<close> is an error as well.
\<close>

theorem exec_recovers_memory_panic_only_witness:
  "map_option fst (execBody (panicEnv outOfMemory) optimistic0) = Some (Panic outOfMemory) \<and>
   isMemoryExceed (PanicMemoryExceed (panicEnv outOfMemory)) outOfMemory \<and>
   map_option fst (Exec (panicEnv outOfMemory) optimistic0) =
     Some (Ret (None, Some (ErrorsErrorf outOfMemory))) \<and>
   nextOut (executor (recordSet (panicExec outOfMemory) 100 None))
     (pos (executor (recordSet (panicExec outOfMemory) 100 None))) = NextPanic outOfMemory \<and>
   fst (recordSet_Next (recordSet (panicExec outOfMemory) 100 None) optimistic0) =
     ([], Some (ErrorsErrorf outOfMemory))"
proof -
  obtain s1 where b: "execBody (panicEnv outOfMemory) optimistic0 = Some (Panic outOfMemory, s1)"
    using execBody_panicEnv[of outOfMemory] by auto
  have m: "isMemoryExceed (PanicMemoryExceed (panicEnv outOfMemory)) outOfMemory"
    by (simp add: panicEnv_def scriptedEnv_def outOfMemory_def)
  have n: "nextOut (executor (recordSet (panicExec outOfMemory) 100 None))
     (pos (executor (recordSet (panicExec outOfMemory) 100 None))) = NextPanic outOfMemory"
    by (simp add: panicExec_def scriptedExec_def)
  show ?thesis
    using exec_recovers_memory_panic_only[where env = "panicEnv outOfMemory" and s = optimistic0
        and p = outOfMemory and ?s1.0 = s1 and a = "recordSet (panicExec outOfMemory) 100 None"] b m n
    by simp
qed

text \<open>
  The claim as it was written fails in both directions: a panic of the drive that is
  not the out-of-memory signal leaves \<^verbatim>\<open>Exec\<close> as a panic, and the out-of-memory panic
  is the one that \<^verbatim>\<open>Exec\<close> returns as an error.
\<close>

theorem other_panic_leaves_exec:
  "\<not> isMemoryExceed (PanicMemoryExceed (panicEnv unexpectedState)) unexpectedState \<and>
   map_option fst (Exec (panicEnv unexpectedState) optimistic0) = Some (Panic unexpectedState) \<and>
   isMemoryExceed (PanicMemoryExceed (panicEnv outOfMemory)) outOfMemory \<and>
   map_option fst (Exec (panicEnv outOfMemory) optimistic0) =
     Some (Ret (None, Some (ErrorsErrorf outOfMemory)))"
proof -
  have a: "\<not> isMemoryExceed (PanicMemoryExceed (panicEnv unexpectedState)) unexpectedState"
    by (simp add: panicEnv_def scriptedEnv_def unexpectedState_def)
  have b: "isMemoryExceed (PanicMemoryExceed (panicEnv outOfMemory)) outOfMemory"
    by (simp add: panicEnv_def scriptedEnv_def outOfMemory_def)
  obtain s1 where "execBody (panicEnv unexpectedState) optimistic0 = Some (Panic unexpectedState, s1)"
    using execBody_panicEnv[of unexpectedState] by auto
  then have c: "map_option fst (Exec (panicEnv unexpectedState) optimistic0) = Some (Panic unexpectedState)"
    using a by (simp add: Exec_def execRecover_panic)
  obtain s2 where "execBody (panicEnv outOfMemory) optimistic0 = Some (Panic outOfMemory, s2)"
    using execBody_panicEnv[of outOfMemory] by auto
  then have d: "map_option fst (Exec (panicEnv outOfMemory) optimistic0) =
      Some (Ret (None, Some (ErrorsErrorf outOfMemory)))"
    using b by (simp add: Exec_def execRecover_panic)
  from a b c d show ?thesis by simp
qed

section \<open>Statements without a result\<close>


lemma withHandled_Ret:
  "fst (withHandled h r) = Ret (h', rs', er') \<Longrightarrow> h' = h \<and> fst r = Ret (rs', er')"
  by (cases "fst r") (auto simp: withHandled_def)


lemma noDelayDeferred_fst [simp]: "fst (noDelayDeferred r) = fst r"
  by (auto simp: noDelayDeferred_def split: outcome.splits option.splits)






section \<open>The buffered record set of a select for update\<close>

lemma next_a_outcome: "fst (next_a e s) = nextOut e (pos e)"
  by (simp add: next_a_def Let_def split: NextOutcome.splits)

lemma next_a_executor: "fst (snd (next_a e s)) = advance e"
  by (simp add: next_a_def Let_def split: NextOutcome.splits)

lemma next_a_parts: "next_a e s = (nextOut e (pos e), advance e, snd (snd (next_a e s)))"
  using next_a_outcome[of e s] next_a_executor[of e s] by (metis prod.collapse)
















section \<open>Phase durations across retries\<close>

subsection \<open>Attempts of a growing trace\<close>

lemma splitAttempts_nonempty [simp]: "splitAttempts cur tr \<noteq> []"
  by (induction tr arbitrary: cur) auto

lemma splitAttempts_snoc:
  "splitAttempts cur (tr @ [ev]) =
     (if ev = EvRetryStart then splitAttempts cur tr @ [[]]
      else butlast (splitAttempts cur tr) @ [last (splitAttempts cur tr) @ [ev]])"
  by (induction tr arbitrary: cur) (auto simp: butlast_append)

lemma attempts_nonempty [simp]: "attempts tr \<noteq> []"
  by (simp add: attempts_def)

lemma attempts_snoc:
  "attempts (tr @ [ev]) =
     (if ev = EvRetryStart then attempts tr @ [[]]
      else butlast (attempts tr) @ [last (attempts tr) @ [ev]])"
  by (simp add: attempts_def splitAttempts_snoc)

lemma length_splitAttempts:
  "length (splitAttempts cur tr) = Suc (length (filter (\<lambda>ev. ev = EvRetryStart) tr))"
  by (induction tr arbitrary: cur) auto

lemma retries_count:
  "length (butlast (attempts tr)) = length (filter (\<lambda>ev. ev = EvRetryStart) tr)"
  by (simp add: attempts_def length_splitAttempts)

lemma sum_butlast_last:
  fixes g :: "'a \<Rightarrow> duration"
  shows "xs \<noteq> [] \<Longrightarrow> sum_list (map g xs) = sum_list (map g (butlast xs)) + g (last xs)"
  by (induction xs) (auto simp: add.assoc)

text \<open>One more traced call: a retry start folds the slots, any other call adds its time to slot 0.\<close>

lemma slots_snoc:
  "slots f (tr @ [ev]) =
     (if ev = EvRetryStart then foldSlot (slots f tr) else addSlot0 (f ev) (slots f tr))"
proof (cases "ev = EvRetryStart")
  case True
  have "sum_list (map (phaseTime f) (attempts tr)) =
      sum_list (map (phaseTime f) (butlast (attempts tr))) + phaseTime f (last (attempts tr))"
    by (rule sum_butlast_last) simp
  then show ?thesis
    using True by (simp add: slots_def attempts_snoc foldSlot_def phaseTime_def)
next
  case False
  then show ?thesis
    by (simp add: slots_def attempts_snoc addSlot0_def phaseTime_def butlast_append)
qed

lemma slots_append:
  "slots f (tr @ evs) =
     foldl (\<lambda>d ev. if ev = EvRetryStart then foldSlot d else addSlot0 (f ev) d) (slots f tr) evs"
proof (induction evs arbitrary: tr)
  case Nil
  then show ?case by simp
next
  case (Cons ev evs)
  have "slots f (tr @ ev # evs) = slots f ((tr @ [ev]) @ evs)" by simp
  also have "\<dots> = foldl (\<lambda>d ev. if ev = EvRetryStart then foldSlot d else addSlot0 (f ev) d)
      (slots f (tr @ [ev])) evs"
    by (rule Cons.IH)
  finally show ?case by (simp add: slots_snoc)
qed

lemma addSlot0_zero [simp]: "addSlot0 0 d = d"
  by (simp add: addSlot0_def)

lemma slots_Nil [simp]: "slots f [] = (0, 0)"
  by (simp add: slots_def attempts_def phaseTime_def)

text \<open>The counters in terms of counted events.\<close>

lemma accounted_iff:
  "accounted s \<longleftrightarrow>
     unat (retryCount s) = length (filter (\<lambda>ev. ev = EvRetryStart) (trace s)) \<and>
     length (filter isLockError (trace s)) = length (filter (\<lambda>ev. ev = EvRetryStart) (trace s)) \<and>
     phaseBuildDurations s = slots buildTime (trace s) \<and>
     phaseOpenDurations s = slots openTime (trace s) \<and>
     phaseNextDurations s = slots nextTime (trace s) \<and>
     phaseLockDurations s = slots lockTime (trace s)"
  by (simp only: accounted_def retries_count)

lemma fresh_accounted: "fresh s \<Longrightarrow> accounted s"
  by (simp add: fresh_def accounted_iff)

subsection \<open>Calls that keep the counters in step with the trace\<close>

lemma accounted_emit:
  assumes "buildTime ev = 0" "openTime ev = 0" "nextTime ev = 0" "lockTime ev = 0"
    and "ev \<noteq> EvRetryStart" "\<not> isLockError ev"
  shows "accounted (emit ev s) = accounted s"
  using assms by (simp add: accounted_iff emit_def slots_snoc)

lemma accounted_logAudit [simp]: "accounted (logAudit s) = accounted s"
  by (simp add: logAudit_def accounted_emit)

lemma accounted_build: "accounted s \<Longrightarrow> accounted (snd (buildExecutor env s))"
  by (simp add: buildExecutor_def Let_def accounted_iff emit_def slots_snoc split: BuildOutcome.splits)

lemma accounted_open: "accounted s \<Longrightarrow> accounted (snd (openExecutor e s))"
  by (simp add: openExecutor_def accounted_iff emit_def slots_snoc)

lemma accounted_next: "accounted s \<Longrightarrow> accounted (snd (snd (next_a e s)))"
  by (simp add: next_a_def Let_def accounted_iff emit_def slots_snoc split: NextOutcome.splits)

lemma accounted_noDelay: "accounted s \<Longrightarrow> accounted (snd (handleNoDelayExecutor e s))"
proof -
  assume a: "accounted s"
  obtain r e1 s1 where n: "next_a e s = (r, e1, s1)" by (cases "next_a e s")
  then have "accounted s1" using accounted_next[OF a, of e] by simp
  then show ?thesis using a n
    by (simp add: handleNoDelayExecutor_def Let_def accounted_emit split: NextOutcome.splits)
qed

lemma emit_flags [simp]:
  "hasMemTracker (emit ev s) = hasMemTracker s"
  "hasDiskTracker (emit ev s) = hasDiskTracker s"
  "InRestrictedSQL (emit ev s) = InRestrictedSQL s"
  "txnValid (emit ev s) = txnValid s"
  "SnapshotTS (emit ev s) = SnapshotTS s"
  "IsPessimistic (emit ev s) = IsPessimistic s"
  "isSelectForUpdate (emit ev s) = isSelectForUpdate s"
  by (simp_all add: emit_def)

lemma accounted_detach [simp]: "accounted (detachTrackers s) = accounted s"
  by (simp add: detachTrackers_def Let_def accounted_emit)

subsection \<open>A retry folds the slots\<close>

text \<open>
  After a lock error below the budget, the state in which the executor is rebuilt:
  the retry is counted and the durations are folded.
\<close>

lemma accounted_retry_start:
  assumes "accounted s" and "retryCount s < m"
  shows "accounted (resetPhaseDurations (emit EvGetStmtForUpdateTS (emit EvOnStmtRetry
           (emit EvRetryStart
              ((emit (EvOnStmtErrorForNextAction le) s)\<lparr>retryCount := retryCount s + 1\<rparr>)))))"
proof -
  have "unat (retryCount s + 1) = Suc (unat (retryCount s))"
    using assms(2) by (rule word_succ_below)
  then show ?thesis
    using assms(1)
    by (simp add: accounted_iff resetPhaseDurations_def emit_def slots_append)
qed

lemma accounted_rebuild:
  assumes "accounted s"
  shows "accounted (snd (lockErrorRebuild env s))"
proof -
  obtain r s1 where b: "buildExecutor env s = (r, s1)" by (cases "buildExecutor env s")
  have a1: "accounted s1" using accounted_build[OF assms, of env] b by simp
  show ?thesis
  proof (cases r)
    case (Inl er)
    then show ?thesis using b a1 by (simp add: lockErrorRebuild_def)
  next
    case (Inr e)
    let ?s2 = "emit EvResetOffset (emit EvResetForRetry (emit EvStmtRollback s1))"
    have a2: "accounted ?s2" using a1 by (simp add: accounted_emit)
    obtain o2 s3 where op: "openExecutor e ?s2 = (o2, s3)" by (cases "openExecutor e ?s2")
    have "accounted s3" using accounted_open[OF a2, of e] op by simp
    then show ?thesis using b Inr op by (simp add: lockErrorRebuild_def split: option.splits)
  qed
qed

lemma lockErrorRetry_executor:
  assumes "lockErrorRetry env s = ((Some e, er), s')"
  shows "s' = snd (lockErrorRebuild env (resetPhaseDurations (emit EvGetStmtForUpdateTS
           (emit EvOnStmtRetry (emit EvRetryStart (s\<lparr>retryCount := retryCount s + 1\<rparr>))))))"
  using assms by (auto simp: lockErrorRetry_def Let_def split: option.splits)

lemma accounted_lockErrorBody:
  assumes "accounted s" and "lockErrorBody env le s = ((Some e, er), s')"
  shows "accounted s'"
proof -
  obtain act mer where o: "OnStmtErrorForNextAction env s le = (act, mer)"
    by (cases "OnStmtErrorForNextAction env s le")
  from assms(2) o
  have r: "lockErrorRetry env (emit (EvOnStmtErrorForNextAction le) s) = ((Some e, er), s')"
    and lt: "\<not> MaxRetryCount env \<le> retryCount s"
    by (auto simp: lockErrorBody_def Let_def split: option.splits if_splits)
  have below: "retryCount s < MaxRetryCount env" using lt by (simp add: not_le)
  have "s' = snd (lockErrorRebuild env (resetPhaseDurations (emit EvGetStmtForUpdateTS
      (emit EvOnStmtRetry (emit EvRetryStart
         ((emit (EvOnStmtErrorForNextAction le) s)\<lparr>retryCount := retryCount s + 1\<rparr>))))))"
    using lockErrorRetry_executor[OF r] by simp
  then show ?thesis
    using accounted_rebuild[OF accounted_retry_start[OF assms(1) below]] by simp
qed

lemma accounted_recovery:
  assumes "accounted s" and "handlePessimisticLockError env lockErr s = ((eo, None), s')"
  shows "accounted s'"
proof (cases lockErr)
  case None
  with assms show ?thesis by (simp add: handlePessimisticLockError_def)
next
  case (Some le)
  obtain eo1 er1 s1 where b: "lockErrorBody env le s = ((eo1, er1), s1)"
    by (metis prod.collapse)
  from assms(2) Some b have e1: "eo1 = eo" "s1 = s'" "deadlockDefer er1 = None"
    by (simp_all add: handlePessimisticLockError_Some)
  from e1(3) have "er1 = None" by (auto simp: deadlockDefer_def split: option.splits if_splits)
  have "eo1 \<noteq> None"
  proof
    assume "eo1 = None"
    with b \<open>er1 = None\<close> show False
      by (auto simp: lockErrorBody_def lockErrorRetry_def lockErrorRebuild_def Let_def
            split: option.splits if_splits prod.splits sum.splits)
  qed
  then obtain e where "eo1 = Some e" by auto
  with b e1 accounted_lockErrorBody[OF assms(1)] show ?thesis by blast
qed

subsection \<open>The loops keep the counters in step\<close>

lemma accounted_dmlRecover:
  assumes "accounted s" and "dmlRecover env le s = (DMLAgain e1, s1)"
  shows "accounted s1"
proof -
  obtain eo er s0 where h: "handlePessimisticLockError env (Some le) s = ((eo, er), s0)"
    by (metis prod.collapse)
  with assms(2) have "er = None" "s0 = s1"
    by (auto simp: dmlRecover_def split: option.splits if_splits)
  with h accounted_recovery[OF assms(1)] show ?thesis by blast
qed

lemma dmlRecover_no_nil_return: "dmlRecover env le s \<noteq> (DMLReturn None, s1)"
  by (auto simp: dmlRecover_def split: prod.splits option.splits if_splits)

lemma accounted_lockKeys:
  "accounted s \<Longrightarrow>
   accounted (emit (EvLockKeys ks d) (s\<lparr>phaseLockDurations := addSlot0 d (phaseLockDurations s)\<rparr>))"
  by (simp add: accounted_iff emit_def slots_snoc)

lemma accounted_dmlLock:
  assumes "accounted s" and "dmlLock env s = (st, s1)" and "st = DMLReturn None \<or> (\<exists>e1. st = DMLAgain e1)"
  shows "accounted s1"
proof -
  let ?s1 = "emit EvKeysNeedToLock s"
  have a1: "accounted ?s1" using assms(1) by (simp add: accounted_emit)
  show ?thesis
  proof (cases "KeysNeedToLock env s")
    case (Inl err1)
    with assms(2,3) show ?thesis by (auto simp: dmlLock_def Let_def)
  next
    case (Inr keys0)
    let ?k1 = "CollectUnchangedLockKeys env ?s1 keys0"
    let ?k3 = "filterLockTableKeys env ?s1 (filterTemporaryTableKeys env ?s1 ?k1)"
    let ?s2 = "emit (EvNewLockCtx (length ?k3)) ?s1"
    let ?r = "LockKeys env ?s2 ?k3"
    let ?s3 = "emit (EvLockKeys ?k3 (snd ?r)) (?s2\<lparr>phaseLockDurations := addSlot0 (snd ?r) (phaseLockDurations ?s2)\<rparr>)"
    have a2: "accounted ?s2" using a1 by (simp add: accounted_emit)
    have a3: "accounted ?s3" using a2 by (rule accounted_lockKeys)
    show ?thesis
    proof (cases "?k1 = []")
      case True
      with Inr assms(2) a1 show ?thesis by (simp add: dmlLock_def Let_def)
    next
      case False
      show ?thesis
      proof (cases "newLockCtx env ?s1 (length ?k3)")
        case (Some er)
        with Inr False assms(2,3) show ?thesis by (auto simp: dmlLock_def Let_def)
      next
        case None
        show ?thesis
        proof (cases "fst ?r")
          case None
          with Inr False \<open>newLockCtx env ?s1 (length ?k3) = None\<close> assms(2) a3
          show ?thesis by (simp add: dmlLock_def Let_def)
        next
          case (Some er)
          with Inr False \<open>newLockCtx env ?s1 (length ?k3) = None\<close> assms(2)
          have d: "dmlRecover env er ?s3 = (st, s1)" by (simp add: dmlLock_def Let_def)
          with assms(3) dmlRecover_no_nil_return obtain e1 where "st = DMLAgain e1" by blast
          with d accounted_dmlRecover[OF a3] show ?thesis by blast
        qed
      qed
    qed
  qed
qed

lemma accounted_dmlIter:
  assumes "accounted s" and "dmlIter env e s = (st, s1)" and "st = DMLReturn None \<or> (\<exists>e1. st = DMLAgain e1)"
  shows "accounted s1"
proof -
  obtain r s0 where h: "handleNoDelayExecutor e s = (r, s0)" by (cases "handleNoDelayExecutor e s")
  have a0: "accounted s0" using accounted_noDelay[OF assms(1), of e] h by simp
  show ?thesis
  proof (cases r)
    case (Panic p)
    with h assms(2,3) show ?thesis by (auto simp: dmlIter_def)
  next
    case (Ret v)
    obtain rs er where v: "v = (rs, er)" by (cases v)
    show ?thesis
    proof (cases "txnValid s0")
      case False
      with h Ret v assms(2) a0 show ?thesis by (simp add: dmlIter_def)
    next
      case True
      show ?thesis
      proof (cases er)
        case None
        with h Ret v True assms(2) have "dmlLock env s0 = (st, s1)" by (simp add: dmlIter_def)
        then show ?thesis using accounted_dmlLock[OF a0 _ assms(3)] by blast
      next
        case (Some le)
        with h Ret v True assms(2) have d: "dmlRecover env le s0 = (st, s1)" by (simp add: dmlIter_def)
        with assms(3) dmlRecover_no_nil_return obtain e1 where "st = DMLAgain e1" by blast
        with d accounted_dmlRecover[OF a0] show ?thesis by blast
      qed
    qed
  qed
qed

lemma accounted_dmlLoop:
  "accounted s \<Longrightarrow> dmlLoop env e s = (Ret None, s') \<Longrightarrow> accounted s'"
proof (induction env e s rule: dmlLoop.induct)
  case (1 env e s)
  obtain st s1 where it: "dmlIter env e s = (st, s1)" by (cases "dmlIter env e s")
  show ?case
  proof (cases st)
    case (DMLReturn er)
    with it have "dmlLoop env e s = (Ret er, s1)" by (simp add: dmlLoop_return)
    with "1.prems"(2) have "er = None" "s1 = s'" by simp_all
    with it DMLReturn accounted_dmlIter[OF "1.prems"(1)] show ?thesis by blast
  next
    case (DMLPanic p)
    with it have "dmlLoop env e s = (Panic p, s1)" by (simp add: dmlLoop_panic)
    with "1.prems"(2) show ?thesis by simp
  next
    case (DMLAgain e1)
    with it have l: "dmlLoop env e s = dmlLoop env e1 s1" by (simp add: dmlLoop_again)
    have a1: "accounted s1" using accounted_dmlIter[OF "1.prems"(1) it] DMLAgain by blast
    have "fst (dmlIter env e s) = DMLAgain e1" "snd (dmlIter env e s) = s1"
      using it DMLAgain by simp_all
    then show ?thesis using "1.IH"[OF refl _ ] a1 "1.prems"(2) l by simp
  qed
qed

lemma accounted_handlePessimisticDML:
  assumes "accounted s" and "handlePessimisticDML env e s = (Ret None, s')"
  shows "accounted s'"
proof (cases "TxnErr env s")
  case None
  then have "dmlLoop env e (emit EvTxn s) = (Ret None, s')"
    using assms(2) by (simp add: handlePessimisticDML_def)
  moreover have "accounted (emit EvTxn s)" using assms(1) by (simp add: accounted_emit)
  ultimately show ?thesis using accounted_dmlLoop by blast
next
  case (Some er)
  with assms(2) show ?thesis by (simp add: handlePessimisticDML_def)
qed

lemma accounted_sfuDrain:
  assumes "sfuDrain e0 acc0 s0 = Some y0" and "accounted s0"
  shows "accounted (snd (snd y0))"
proof -
  have "accounted s0 \<longrightarrow> accounted (snd (snd y0))"
  proof (rule sfuDrain.raw_induct
      [where P = "\<lambda>e acc s y. accounted s \<longrightarrow> accounted (snd (snd y))", OF _ assms(1)],
      goal_cases)
    case (1 f e acc s y)
    obtain s1 where n: "next_a e s = (nextOut e (pos e), advance e, s1)"
      and s1: "s1 = snd (snd (next_a e s))"
      using next_a_parts[of e s] by simp
    have step: "(case (nextOut e (pos e), advance e, s1) of
                   (NextPanic p, e1, s1) \<Rightarrow> Some (Panic p, e1, s1)
                 | (NextErr er, e1, s1) \<Rightarrow> Some (Ret (Inl er), e1, s1)
                 | (NextRows chk, e1, s1) \<Rightarrow>
                     if length chk = 0 then Some (Ret (Inr acc), e1, s1)
                     else f e1 (acc @ chk) s1) = Some y"
      using "1"(2) unfolding n .
    show ?case
    proof
      assume a: "accounted s"
      have a1: "accounted s1" using accounted_next[OF a, of e] s1 by simp
      show "accounted (snd (snd y))"
      proof (cases "nextOut e (pos e)")
        case (NextPanic p)
        with step a1 show ?thesis by auto
      next
        case (NextErr er)
        with step a1 show ?thesis by auto
      next
        case (NextRows chk)
        show ?thesis
        proof (cases "chk = []")
          case True
          with step NextRows a1 show ?thesis by auto
        next
          case False
          with step NextRows have "f (advance e) (acc @ chk) s1 = Some y" by simp
          then show ?thesis using "1"(1) a1 by blast
        qed
      qed
    qed
  qed
  with assms(2) show ?thesis by simp
qed

lemma accounted_run:
  assumes "runPessimisticSelectForUpdate e s = Some (r, s')" and "accounted s"
  shows "accounted s'"
proof -
  from assms(1) obtain y where y: "sfuDrain e [] s = Some y"
    by (auto simp: runPessimisticSelectForUpdate_def split: option.splits)
  have a: "accounted (snd (snd y))" using accounted_sfuDrain[OF y assms(2)] .
  have "s' = emit EvClose (snd (snd y))"
    using assms(1) y
    by (auto simp: runPessimisticSelectForUpdate_def split: outcome.splits sum.splits prod.splits)
  then show ?thesis using a by (simp add: accounted_emit)
qed

lemma accounted_sfuLoop:
  assumes "sfuLoop env0 e0 s0 = Some (Ret (rs0, None), s0')" and "accounted s0"
  shows "accounted s0'"
proof -
  define y0 where "y0 = (Ret (rs0, None) :: (RecordSet option \<times> err option) outcome, s0')"
  have run0: "sfuLoop env0 e0 s0 = Some y0" using assms(1) by (simp add: y0_def)
  have "accounted s0 \<longrightarrow> (\<forall>rs. fst y0 = Ret (rs, None) \<longrightarrow> accounted (snd y0))"
  proof (rule sfuLoop.raw_induct
      [where P = "\<lambda>env e s y. accounted s \<longrightarrow> (\<forall>rs. fst y = Ret (rs, None) \<longrightarrow> accounted (snd y))",
        OF _ run0],
      goal_cases)
    case (1 f env e s y)
    show ?case
    proof (intro impI allI)
      fix rs
      assume a: "accounted s" and ok: "fst y = Ret (rs, None)"
      from "1"(2) obtain r1 s1 where run: "runPessimisticSelectForUpdate e s = Some (r1, s1)"
        by (cases "runPessimisticSelectForUpdate e s") auto
      have a1: "accounted s1" using accounted_run[OF run a] .
      show "accounted (snd y)"
      proof (cases r1)
        case (Panic p)
        with "1"(2) run ok show ?thesis by auto
      next
        case (Ret v)
        obtain rs1 er where v: "v = (rs1, er)" by (cases v)
        obtain eo er1 s2 where h: "handlePessimisticLockError env er s1 = ((eo, er1), s2)"
          by (metis prod.collapse)
        show ?thesis
        proof (cases er1)
          case (Some x)
          with "1"(2) run Ret v h ok show ?thesis by (cases eo) auto
        next
          case None
          have a2: "accounted s2" using accounted_recovery[OF a1] h None by blast
          show ?thesis
          proof (cases eo)
            case None
            with "1"(2) run Ret v h \<open>er1 = None\<close> a2 show ?thesis by auto
          next
            case (Some e1)
            with "1"(2) run Ret v h \<open>er1 = None\<close> have "f env e1 s2 = Some y" by simp
            then show ?thesis using "1"(1) a2 ok by blast
          qed
        qed
      qed
    qed
  qed
  with assms(2) show ?thesis by (simp add: y0_def)
qed

lemma accounted_selectForUpdate:
  assumes "handlePessimisticSelectForUpdate env e s = Some (Ret (rs, None), s')" and "accounted s"
  shows "accounted s'"
proof (cases "SnapshotTS s = 0")
  case True
  with assms(1) have "sfuLoop env e s = Some (Ret (rs, None), s')"
    by (simp add: handlePessimisticSelectForUpdate_def)
  then show ?thesis using assms(2) by (rule accounted_sfuLoop)
next
  case False
  with assms(1) show ?thesis by (simp add: handlePessimisticSelectForUpdate_def)
qed

lemma withHandled_snd [simp]: "snd (withHandled h r) = snd r"
  by (cases "fst r") (auto simp: withHandled_def)

lemma withNilRecordSet_Ret:
  "fst (withNilRecordSet r) = Ret (rs, er) \<Longrightarrow> fst r = Ret er"
  by (cases "fst r") (auto simp: withNilRecordSet_def)

lemma withNilRecordSet_snd [simp]: "snd (withNilRecordSet r) = snd r"
  by (cases "fst r") (auto simp: withNilRecordSet_def)

lemma noDelayDeferred_accounted [simp]: "accounted (snd (noDelayDeferred r)) = accounted (snd r)"
  by (auto simp: noDelayDeferred_def split: outcome.splits option.splits)

lemma accounted_handleNoDelay:
  assumes "accounted s" and "handleNoDelay env e p s = (Ret (h, rs, None), s')"
  shows "accounted s'"
proof -
  define toCheck where "toCheck =
    (case (if kind e = ExplainExec then analyzeExec e else None) of Some a \<Rightarrow> a | None \<Rightarrow> e)"
  define h0 where "h0 = (\<not> (if kind e = ExplainExec then analyzeExec e else None) \<noteq> None)"
  define body where "body =
    (if schemaLen toCheck = 0 then
       (if p then withHandled h0 (withNilRecordSet (handlePessimisticDML env toCheck s))
        else withHandled h0 (handleNoDelayExecutor toCheck s))
     else if kind toCheck = ProjectionExec True then withHandled True (handleNoDelayExecutor e s)
     else (Ret (False, None, None), s))"
  have hd: "handleNoDelay env e p s = noDelayDeferred body"
    by (simp add: handleNoDelay_def Let_def body_def toCheck_def h0_def)
  have f: "fst body = Ret (h, rs, None)" and s': "s' = snd (noDelayDeferred body)"
    using assms(2) noDelayDeferred_fst[of body] unfolding hd by simp_all
  have "accounted (snd body)"
  proof (cases "schemaLen toCheck = 0")
    case True
    show ?thesis
    proof (cases p)
      case True
      with \<open>schemaLen toCheck = 0\<close>
      have b: "body = withHandled h0 (withNilRecordSet (handlePessimisticDML env toCheck s))"
        by (simp add: body_def)
      have "fst (withNilRecordSet (handlePessimisticDML env toCheck s)) = Ret (rs, None)"
        using withHandled_Ret[OF f[unfolded b]] by simp
      then have "fst (handlePessimisticDML env toCheck s) = Ret None"
        by (rule withNilRecordSet_Ret)
      then have "handlePessimisticDML env toCheck s = (Ret None, snd (handlePessimisticDML env toCheck s))"
        by (metis prod.collapse)
      then have "accounted (snd (handlePessimisticDML env toCheck s))"
        using accounted_handlePessimisticDML[OF assms(1)] by blast
      then show ?thesis unfolding b by simp
    next
      case False
      with \<open>schemaLen toCheck = 0\<close>
      have b: "body = withHandled h0 (handleNoDelayExecutor toCheck s)" by (simp add: body_def)
      show ?thesis unfolding b
        using accounted_noDelay[OF assms(1), of toCheck] by simp
    qed
  next
    case False
    show ?thesis
    proof (cases "kind toCheck = ProjectionExec True")
      case True
      with False have b: "body = withHandled True (handleNoDelayExecutor e s)" by (simp add: body_def)
      show ?thesis unfolding b
        using accounted_noDelay[OF assms(1), of e] by simp
    next
      case nproj: False
      with False have "body = (Ret (False, None, None), s)" by (simp add: body_def)
      then show ?thesis using assms(1) by simp
    qed
  qed
  then show ?thesis unfolding s' by simp
qed

lemma accounted_execBody:
  assumes "accounted s" and "execBody env s = Some (Ret (rs, None), s')"
  shows "accounted s'"
proof -
  obtain b s1 where bd: "buildExecutor env s = (b, s1)" by (cases "buildExecutor env s")
  have a1: "accounted s1" using accounted_build[OF assms(1), of env] bd by simp
  show ?thesis
  proof (cases b)
    case (Inl er)
    with bd assms(2) show ?thesis by (simp add: execBody_def)
  next
    case (Inr e)
    obtain o2 s2 where op: "openExecutor e s1 = (o2, s2)" by (cases "openExecutor e s1")
    have a2: "accounted s2" using accounted_open[OF a1, of e] op by simp
    show ?thesis
    proof (cases o2)
      case (Some er)
      with bd Inr op assms(2) show ?thesis by (simp add: execBody_def)
    next
      case None
      show ?thesis
      proof (cases "IsPessimistic s2 \<and> isSelectForUpdate s2")
        case True
        with bd Inr op None assms(2)
        have "handlePessimisticSelectForUpdate env e s2 = Some (Ret (rs, None), s')"
          by (simp add: execBody_def)
        then show ?thesis using a2 by (rule accounted_selectForUpdate)
      next
        case False
        then have c: "(IsPessimistic s2 \<and> isSelectForUpdate s2) = False" by simp
        obtain hr s3 where h: "handleNoDelay env e (IsPessimistic s2) s2 = (hr, s3)"
          by (cases "handleNoDelay env e (IsPessimistic s2) s2")
        show ?thesis
        proof (cases hr)
          case (Panic p)
          with bd Inr op None h assms(2) show ?thesis by (simp add: execBody_def c)
        next
          case (Ret v)
          obtain hd rs1 er where v: "v = (hd, rs1, er)" by (cases v)
          show ?thesis
          proof (cases er)
            case (Some x)
            with bd Inr op \<open>o2 = None\<close> h Ret v assms(2) show ?thesis
              by (simp add: execBody_def c)
          next
            case None
            have a3: "accounted s3"
              using accounted_handleNoDelay[OF a2] h Ret v None by blast
            have "s' = s3 \<or> s' = emit EvTxn s3"
              using bd Inr op \<open>o2 = None\<close> h Ret v None assms(2)
              by (auto simp: execBody_def c split: if_splits option.splits)
            then show ?thesis using a3 by (auto simp: accounted_emit)
          qed
        qed
      qed
    qed
  qed
qed

lemma accounted_execRecover:
  assumes "accounted s" and "execRecover env (r, s) = (Ret (rs, None), s')"
  shows "accounted s'"
proof (cases r)
  case (Ret v)
  with assms(2) have "s' = s \<or> s' = emit (EvObserveRetryCount (retryCount s)) s"
    by (auto simp: execRecover_def split: if_splits)
  then show ?thesis using assms(1) by (auto simp: accounted_emit)
next
  case (Panic p)
  with assms(2) show ?thesis by (auto simp: execRecover_def split: if_splits)
qed

lemma execRecover_clean:
  "execRecover env (r, s) = (Ret (rs, None), s') \<Longrightarrow> r = Ret (rs, None)"
  by (cases r) (auto simp: execRecover_def split: if_splits)

lemma accounted_Exec:
  assumes "accounted s" and "Exec env s = Some (Ret (rs, None), s')"
  shows "accounted s'"
proof -
  from assms(2) obtain r s1 where b: "execBody env s = Some (r, s1)"
    and rc: "execRecover env (r, s1) = (Ret (rs, None), s')"
    by (auto simp: Exec_def)
  have "r = Ret (rs, None)" using rc by (rule execRecover_clean)
  with b have "accounted s1" using accounted_execBody[OF assms(1)] by blast
  then show ?thesis using rc by (rule accounted_execRecover)
qed

subsection \<open>The claim\<close>

text \<open>
  C5. Take a statement that has not started and let \<^verbatim>\<open>Exec\<close> return without error.
  Cut the trace of its calls at the starts of the retries into the attempts \<open>prior\<close>
  and the last attempt \<open>final\<close>. Then the retry counter is the number of prior
  attempts, which is also the number of lock errors that reached the recovery step;
  slot 1 of each phase is the sum of the times of that phase over the prior attempts,
  and slot 0 is the time of that phase in the final attempt. The sums are sums of int64
  durations.
\<close>

theorem retries_fold_phase_durations:
  assumes "fresh s"
    and "Exec env s = Some (Ret (rs, None), s')"
    and "attempts (trace s') = prior @ [final]"
  shows "unat (retryCount s') = length prior \<and>
         length (filter isLockError (trace s')) = length prior \<and>
         phaseBuildDurations s' = (phaseTime buildTime final, sum_list (map (phaseTime buildTime) prior)) \<and>
         phaseOpenDurations s' = (phaseTime openTime final, sum_list (map (phaseTime openTime) prior)) \<and>
         phaseNextDurations s' = (phaseTime nextTime final, sum_list (map (phaseTime nextTime) prior)) \<and>
         phaseLockDurations s' = (phaseTime lockTime final, sum_list (map (phaseTime lockTime) prior))"
proof -
  have "accounted s'"
    using accounted_Exec[OF fresh_accounted[OF assms(1)] assms(2)] .
  then show ?thesis
    by (simp add: accounted_def slots_def assms(3))
qed

lemma conflictTwice_run:
  "map_option fst (Exec conflictTwiceEnv session0) = Some (Ret (None, None)) \<and>
   map_option (trace \<circ> snd) (Exec conflictTwiceEnv session0) = Some
     [EvBuild 3, EvOpen 5, EvTxn, EvNext 7, EvClose, EvLogAudit,
      EvKeysNeedToLock, EvNewLockCtx 1, EvLockKeys [''k1''] 11,
      EvOnStmtErrorForNextAction KvErrWriteConflict, EvRetryStart, EvOnStmtRetry, EvGetStmtForUpdateTS,
      EvBuild 3, EvStmtRollback, EvResetForRetry, EvResetOffset, EvOpen 5, EvNext 7, EvClose, EvLogAudit,
      EvKeysNeedToLock, EvNewLockCtx 1, EvLockKeys [''k1''] 11,
      EvOnStmtErrorForNextAction KvErrWriteConflict, EvRetryStart, EvOnStmtRetry, EvGetStmtForUpdateTS,
      EvBuild 3, EvStmtRollback, EvResetForRetry, EvResetOffset, EvOpen 5, EvNext 7, EvClose, EvLogAudit,
      EvKeysNeedToLock, EvNewLockCtx 1, EvLockKeys [''k1''] 11,
      EvDetachMem, EvDetachDisk, EvObserveRetryCount 2]"
  by (simp add: Exec_def execBody_def execRecover_def handleNoDelay_def noDelayDeferred_def
     withHandled_def withNilRecordSet_def handlePessimisticDML_def dmlLoop.simps dmlIter_def
     dmlLock_def dmlRecover_def handleNoDelayExecutor_def next_a_def logAudit_def detachTrackers_def
     handlePessimisticLockError_Some lockErrorBody_def lockErrorRetry_def lockErrorRebuild_def
     buildExecutor_def openExecutor_def resetPhaseDurations_def deadlockDefer_def is_tikv_deadlock_def
     ErrDeadlock_Equal_def addSlot0_def foldSlot_def
     conflictTwiceEnv_def conflictTwice_def scriptedEnv_def updateExec_def scriptedExec_def
     session0_def emit_def Let_def word_le_nat_alt word_less_nat_alt)

text \<open>
  An update in a pessimistic transaction whose lock request meets a write conflict
  twice and is granted the third time: two retries, the times of the first two
  attempts in slot 1 and those of the third in slot 0.
\<close>

theorem retries_fold_phase_durations_witness:
  "fresh session0 \<and>
   map_option fst (Exec conflictTwiceEnv session0) = Some (Ret (None, None)) \<and>
   map_option (attempts \<circ> trace \<circ> snd) (Exec conflictTwiceEnv session0) = Some
     ([[EvBuild 3, EvOpen 5, EvTxn, EvNext 7, EvClose, EvLogAudit,
        EvKeysNeedToLock, EvNewLockCtx 1, EvLockKeys [''k1''] 11,
        EvOnStmtErrorForNextAction KvErrWriteConflict],
       [EvOnStmtRetry, EvGetStmtForUpdateTS,
        EvBuild 3, EvStmtRollback, EvResetForRetry, EvResetOffset, EvOpen 5, EvNext 7, EvClose, EvLogAudit,
        EvKeysNeedToLock, EvNewLockCtx 1, EvLockKeys [''k1''] 11,
        EvOnStmtErrorForNextAction KvErrWriteConflict]] @
      [[EvOnStmtRetry, EvGetStmtForUpdateTS,
        EvBuild 3, EvStmtRollback, EvResetForRetry, EvResetOffset, EvOpen 5, EvNext 7, EvClose, EvLogAudit,
        EvKeysNeedToLock, EvNewLockCtx 1, EvLockKeys [''k1''] 11,
        EvDetachMem, EvDetachDisk, EvObserveRetryCount 2]]) \<and>
   map_option (unat \<circ> retryCount \<circ> snd) (Exec conflictTwiceEnv session0) = Some 2 \<and>
   map_option (phaseBuildDurations \<circ> snd) (Exec conflictTwiceEnv session0) = Some (3, 6) \<and>
   map_option (phaseOpenDurations \<circ> snd) (Exec conflictTwiceEnv session0) = Some (5, 10) \<and>
   map_option (phaseNextDurations \<circ> snd) (Exec conflictTwiceEnv session0) = Some (7, 14) \<and>
   map_option (phaseLockDurations \<circ> snd) (Exec conflictTwiceEnv session0) = Some (11, 22)"
proof -
  have f: "fresh session0" by (simp add: fresh_def session0_def)
  obtain s' where e: "Exec conflictTwiceEnv session0 = Some (Ret (None, None), s')"
    and t: "trace s' =
     [EvBuild 3, EvOpen 5, EvTxn, EvNext 7, EvClose, EvLogAudit,
      EvKeysNeedToLock, EvNewLockCtx 1, EvLockKeys [''k1''] 11,
      EvOnStmtErrorForNextAction KvErrWriteConflict, EvRetryStart, EvOnStmtRetry, EvGetStmtForUpdateTS,
      EvBuild 3, EvStmtRollback, EvResetForRetry, EvResetOffset, EvOpen 5, EvNext 7, EvClose, EvLogAudit,
      EvKeysNeedToLock, EvNewLockCtx 1, EvLockKeys [''k1''] 11,
      EvOnStmtErrorForNextAction KvErrWriteConflict, EvRetryStart, EvOnStmtRetry, EvGetStmtForUpdateTS,
      EvBuild 3, EvStmtRollback, EvResetForRetry, EvResetOffset, EvOpen 5, EvNext 7, EvClose, EvLogAudit,
      EvKeysNeedToLock, EvNewLockCtx 1, EvLockKeys [''k1''] 11,
      EvDetachMem, EvDetachDisk, EvObserveRetryCount 2]"
    using conflictTwice_run by auto
  have a: "attempts (trace s') =
     [[EvBuild 3, EvOpen 5, EvTxn, EvNext 7, EvClose, EvLogAudit,
        EvKeysNeedToLock, EvNewLockCtx 1, EvLockKeys [''k1''] 11,
        EvOnStmtErrorForNextAction KvErrWriteConflict],
       [EvOnStmtRetry, EvGetStmtForUpdateTS,
        EvBuild 3, EvStmtRollback, EvResetForRetry, EvResetOffset, EvOpen 5, EvNext 7, EvClose, EvLogAudit,
        EvKeysNeedToLock, EvNewLockCtx 1, EvLockKeys [''k1''] 11,
        EvOnStmtErrorForNextAction KvErrWriteConflict]] @
      [[EvOnStmtRetry, EvGetStmtForUpdateTS,
        EvBuild 3, EvStmtRollback, EvResetForRetry, EvResetOffset, EvOpen 5, EvNext 7, EvClose, EvLogAudit,
        EvKeysNeedToLock, EvNewLockCtx 1, EvLockKeys [''k1''] 11,
        EvDetachMem, EvDetachDisk, EvObserveRetryCount 2]]"
    unfolding t by (simp add: attempts_def)
  show ?thesis
    using retries_fold_phase_durations[OF f e a] f
    by (simp add: e a phaseTime_def)
qed

end
